theory Spec2Isabelle
  imports Main "HOL-Library.AList"
begin

section \<open>Remote provisioning workflow (provider-import.js)\<close>

text \<open>
  The module talks to a remote API through \<^verbatim>\<open>fetch\<close>. The remote side is the
  environment of the model: every request is answered either by an exception of
  \<^verbatim>\<open>fetch\<close> itself (a network error) or by a response with a status code and a
  body. \<^verbatim>\<open>response.ok\<close> is the status range 200..299.
\<close>

datatype 'a reply = Threw string | Reply (status: nat) (body: 'a)

definition ok :: "nat \<Rightarrow> bool" where
  "ok st = (200 \<le> st \<and> st \<le> 299)"

text \<open>
  What the module does besides returning: the requests it sends, the pauses it takes and
  the lines it writes to the console. Console lines are kept by kind, without their text.
\<close>

datatype plog =
    LogConfiguring | LogRenaming | LogConfigured | LogRetry404 nat nat | LogRetryNetwork nat nat
  | WarnCouldNotConfigure nat | WarnNotFoundAfterRetries | WarnManualConfiguration
  | WarnErrorConfiguring string
  | LogImporting | LogCreatingSecret | LogSecretCreated | LogImportingAssistant
  | LogReusing | LogOriginallyImportedAt | LogImported | LogConfiguringImported
  | ErrFailedToImport

datatype peffect =
    PostSecret
  | PostImport string "string option"
  | PostAssistant string nat
  | Sleep nat
  | Wrote plog

datatype perror =
    UnsupportedProvider string
  | SecretFailed nat
  | ImportApiFailed nat
  | NoAssistantImported "string option"
  | ImportMismatch "string option" "string option"
  | NetworkError string

subsection \<open>configureImportedAssistant\<close>

definition MAX_RETRIES :: nat where
  "MAX_RETRIES = 5"

definition INITIAL_DELAY_MS :: nat where
  "INITIAL_DELAY_MS = 500"

text \<open>\<^verbatim>\<open>INITIAL_DELAY_MS * Math.pow(2, attempt - 1)\<close>\<close>

definition backoff :: "nat \<Rightarrow> nat" where
  "backoff attempt = INITIAL_DELAY_MS * 2 ^ (attempt - 1)"

text \<open>
  The body of the \<^verbatim>\<open>catch\<close> block of one attempt: a retry after the back-off
  delay while attempts remain, otherwise a warning and \<^verbatim>\<open>false\<close>. The result is
  \<open>None\<close> for \<^verbatim>\<open>continue\<close> and \<open>Some b\<close> for \<^verbatim>\<open>return b\<close>.
\<close>

definition on_catch :: "nat \<Rightarrow> string \<Rightarrow> bool option \<times> peffect list" where
  "on_catch attempt msg =
     (if attempt < MAX_RETRIES
      then (None, [Wrote (LogRetryNetwork (backoff attempt) attempt), Sleep (backoff attempt)])
      else (Some False, [Wrote (WarnErrorConfiguring msg)]))"

text \<open>
  One pass through the loop body for the reply to this attempt's request. The body of a
  reply is the result of \<^verbatim>\<open>response.text()\<close>: \<open>None\<close> when reading it throws,
  which lands in the same \<^verbatim>\<open>catch\<close> block as a network error.
\<close>

definition attempt_once :: "string \<Rightarrow> nat \<Rightarrow> string option reply \<Rightarrow> bool option \<times> peffect list" where
  "attempt_once assistantId attempt r =
     (case r of
        Threw msg \<Rightarrow>
          (let (res, eff) = on_catch attempt msg in (res, PostAssistant assistantId attempt # eff))
      | Reply st txt \<Rightarrow>
          if ok st then (Some True, [PostAssistant assistantId attempt, Wrote LogConfigured])
          else if st = 404 \<and> attempt < MAX_RETRIES then
            (None, [PostAssistant assistantId attempt,
                    Wrote (LogRetry404 (backoff attempt) attempt), Sleep (backoff attempt)])
          else (case txt of
                  None \<Rightarrow>
                    (let (res, eff) = on_catch attempt ''text''
                     in (res, PostAssistant assistantId attempt # eff))
                | Some errorText \<Rightarrow>
                    (Some False,
                     [PostAssistant assistantId attempt, Wrote (WarnCouldNotConfigure st)]
                     @ (if st = 404 then [Wrote WarnNotFoundAfterRetries] else [])
                     @ [Wrote WarnManualConfiguration])))"

text \<open>
  The \<^verbatim>\<open>for (let attempt = 1; attempt <= MAX_RETRIES; attempt++)\<close> loop. The
  environment \<open>fetch\<close> gives the reply to the request of each attempt.
\<close>

function configure_loop ::
  "(nat \<Rightarrow> string option reply) \<Rightarrow> string \<Rightarrow> nat \<Rightarrow> bool \<times> peffect list" where
  "configure_loop fetch assistantId attempt =
     (if attempt \<le> MAX_RETRIES then
        (case attempt_once assistantId attempt (fetch attempt) of
           (Some b, eff) \<Rightarrow> (b, eff)
         | (None, eff) \<Rightarrow>
             (let (b, eff') = configure_loop fetch assistantId (attempt + 1) in (b, eff @ eff')))
      else (False, []))"
  by pat_completeness auto
termination
  by (relation "measure (\<lambda>(fetch, assistantId, attempt). Suc MAX_RETRIES - attempt)") auto

definition configureImportedAssistant ::
  "(nat \<Rightarrow> string option reply) \<Rightarrow> string \<Rightarrow> bool \<times> peffect list" where
  "configureImportedAssistant fetch assistantId =
     (let (b, eff) = configure_loop fetch assistantId 1
      in (b, [Wrote LogConfiguring, Wrote LogRenaming] @ eff))"

text \<open>The pauses taken, in order.\<close>

fun sleeps :: "peffect list \<Rightarrow> nat list" where
  "sleeps [] = []"
| "sleeps (Sleep d # es) = d # sleeps es"
| "sleeps (_ # es) = sleeps es"

text \<open>The attempt numbers of the configuration requests sent, in order.\<close>

fun posts :: "peffect list \<Rightarrow> nat list" where
  "posts [] = []"
| "posts (PostAssistant _ k # es) = k # posts es"
| "posts (_ # es) = posts es"

subsection \<open>importAssistantsFromProvider\<close>

record import_metadata =
  import_id :: "string option"
  imported_at :: "string option"

record assistant =
  a_id :: string
  a_name :: string
  a_import_metadata :: "import_metadata option"

record import_result =
  assistants :: "(string \<times> string \<times> string option) list"
  assistantId :: string

text \<open>
  The remote side and the clock, as seen by one call: the reply to the secret request
  (its body is the identifier echoed back), the reply to the import request (its body is
  \<^verbatim>\<open>importData.data || []\<close>), the replies to the configuration requests, the value
  of \<^verbatim>\<open>Date.now()\<close> and the parser behind \<^verbatim>\<open>new Date(s).getTime()\<close>, which is
  \<open>None\<close> for \<^verbatim>\<open>NaN\<close>.
\<close>

record remote =
  secret_reply :: "string reply"
  import_reply :: "assistant list reply"
  configure_reply :: "nat \<Rightarrow> string option reply"
  date_now :: int
  date_parse :: "string \<Rightarrow> int option"

definition SUPPORTED_PROVIDERS :: "string list" where
  "SUPPORTED_PROVIDERS = [''vapi'', ''elevenlabs'', ''retell'']"

definition createIntegrationSecret :: "remote \<Rightarrow> (perror + string) \<times> peffect list" where
  "createIntegrationSecret env =
     (case secret_reply env of
        Threw msg \<Rightarrow> (Inl (NetworkError msg), [Wrote LogCreatingSecret, PostSecret])
      | Reply st ident \<Rightarrow>
          if \<not> ok st then (Inl (SecretFailed st), [Wrote LogCreatingSecret, PostSecret])
          else (Inr ident, [Wrote LogCreatingSecret, PostSecret, Wrote LogSecretCreated]))"

text \<open>\<^verbatim>\<open>importedAssistant.import_metadata?.import_id\<close> and \<^verbatim>\<open>?.imported_at\<close>\<close>

definition importId_of :: "assistant \<Rightarrow> string option" where
  "importId_of a = (case a_import_metadata a of None \<Rightarrow> None | Some m \<Rightarrow> import_id m)"

definition importedAt_of :: "assistant \<Rightarrow> string option" where
  "importedAt_of a = (case a_import_metadata a of None \<Rightarrow> None | Some m \<Rightarrow> imported_at m)"

text \<open>
  \<^verbatim>\<open>importedAt && (Date.now() - new Date(importedAt).getTime() > 60000)\<close>: an
  undefined or empty string is falsy, and a comparison with \<^verbatim>\<open>NaN\<close> is false.
\<close>

definition isReused :: "remote \<Rightarrow> string option \<Rightarrow> bool" where
  "isReused env importedAt =
     (case importedAt of
        None \<Rightarrow> False
      | Some s \<Rightarrow>
          if s = [] then False
          else (case date_parse env s of
                  None \<Rightarrow> False
                | Some t \<Rightarrow> date_now env - t > 60000))"

text \<open>The part of the \<^verbatim>\<open>try\<close> block after the import response has been parsed.\<close>

definition after_import ::
  "remote \<Rightarrow> string option \<Rightarrow> assistant list \<Rightarrow> (perror + import_result) \<times> peffect list" where
  "after_import env requested as =
     (if length as = 0 then (Inl (NoAssistantImported requested), [])
      else
        (let importedAssistant = hd as;
             importId = importId_of importedAssistant
         in if importId \<noteq> requested then (Inl (ImportMismatch requested importId), [])
            else
              (let importedAt = importedAt_of importedAssistant;
                   res = \<lparr>assistants = [(a_id importedAssistant, a_name importedAssistant, importId)],
                          assistantId = a_id importedAssistant\<rparr>
               in if isReused env importedAt
                  then (Inr res, [Wrote LogReusing, Wrote LogOriginallyImportedAt])
                  else
                    (let (b, eff) = configureImportedAssistant (configure_reply env)
                                      (a_id importedAssistant)
                     in (Inr res, [Wrote LogImported, Wrote LogConfiguringImported] @ eff)))))"

text \<open>
  The outer \<^verbatim>\<open>catch\<close> logs and rethrows, so an error of any step is the error of
  the call.
\<close>

definition rethrow :: "(perror + 'a) \<times> peffect list \<Rightarrow> (perror + 'a) \<times> peffect list" where
  "rethrow r = (case fst r of Inl e \<Rightarrow> (Inl e, snd r @ [Wrote ErrFailedToImport]) | Inr v \<Rightarrow> r)"

definition importAssistantsFromProvider ::
  "remote \<Rightarrow> string \<Rightarrow> string option \<Rightarrow> (perror + import_result) \<times> peffect list" where
  "importAssistantsFromProvider env provider requested =
     (if provider \<notin> set SUPPORTED_PROVIDERS then (Inl (UnsupportedProvider provider), [])
      else rethrow
        (case createIntegrationSecret env of
           (Inl e, eff) \<Rightarrow> (Inl e, Wrote LogImporting # eff)
         | (Inr secret, eff) \<Rightarrow>
             (let eff1 = Wrote LogImporting # eff
                         @ [Wrote LogImportingAssistant, PostImport secret requested]
              in case import_reply env of
                   Threw msg \<Rightarrow> (Inl (NetworkError msg), eff1)
                 | Reply st as \<Rightarrow>
                     if \<not> ok st then (Inl (ImportApiFailed st), eff1)
                     else (let (r, eff2) = after_import env requested as in (r, eff1 @ eff2)))))"

subsection \<open>Classification of replies and sample environments\<close>

text \<open>
  A reply to a configuration request after which the loop goes on while attempts remain:
  an exception of the request, a 404, or an error response whose body cannot be read.
\<close>

definition retryable :: "string option reply \<Rightarrow> bool" where
  "retryable r =
     (case r of Threw msg \<Rightarrow> True | Reply st txt \<Rightarrow> \<not> ok st \<and> (st = 404 \<or> txt = None))"

definition succeeded :: "string option reply \<Rightarrow> bool" where
  "succeeded r = (case r of Threw msg \<Rightarrow> False | Reply st txt \<Rightarrow> ok st)"

definition always_404 :: "nat \<Rightarrow> string option reply" where
  "always_404 k = Reply 404 (Some ''not found'')"

definition two_404_then_500 :: "nat \<Rightarrow> string option reply" where
  "two_404_then_500 k =
     (if k < 3 then Reply 404 (Some ''not found'') else Reply 500 (Some ''internal error''))"

definition network_error_then_ok :: "nat \<Rightarrow> string option reply" where
  "network_error_then_ok k = (if k = 1 then Threw ''ECONNRESET'' else Reply 200 (Some ''ok''))"

definition parse_fixed :: "string \<Rightarrow> int option" where
  "parse_fixed s = Some 1700000000000"

definition other_assistant :: assistant where
  "other_assistant =
     \<lparr>a_id = ''tx-2'', a_name = ''Other'',
      a_import_metadata = Some \<lparr>import_id = Some ''ext-other'', imported_at = None\<rparr>\<rparr>"

definition recent_assistant :: assistant where
  "recent_assistant =
     \<lparr>a_id = ''tx-1'', a_name = ''Support'',
      a_import_metadata =
        Some \<lparr>import_id = Some ''ext-1'', imported_at = Some ''2023-11-14T22:13:20Z''\<rparr>\<rparr>"

definition env_mismatch :: remote where
  "env_mismatch =
     \<lparr>secret_reply = Reply 201 ''vapi_import_1'', import_reply = Reply 200 [other_assistant],
      configure_reply = always_404, date_now = 1700000010000, date_parse = parse_fixed\<rparr>"

definition env_recent :: remote where
  "env_recent =
     \<lparr>secret_reply = Reply 201 ''vapi_import_1'', import_reply = Reply 200 [recent_assistant],
      configure_reply = always_404, date_now = 1700000060000, date_parse = parse_fixed\<rparr>"

section \<open>Event broker, step executor and run controller (voice-agent-tester.js)\<close>

subsection \<open>Events, errors and promises\<close>

record payload =
  elementId :: "string option"
  audioData :: string
  mimeType :: string
  sampleRate :: nat
  channels :: nat
  bitsPerSample :: nat

record event =
  eventType :: string
  data :: "payload option"
  timestamp :: nat

text \<open>
  The detail appended to the first line of a timeout message: nothing outside debug
  mode; in debug mode the snapshot returned by \<^verbatim>\<open>collectDiagnostics\<close>, or the line
  saying that no diagnostics could be collected.
\<close>

datatype detail = NoDetail | Snapshot string | CouldNotCollect

text \<open>
  The errors thrown, by message: ``Timeout waiting for 'T' event after n ms'' with its
  detail, ``Event queue cleared while waiting for T'', ``Browser closed while waiting for
  T'', ``Browser not launched. Call launch() first.'', and any other message.
\<close>

datatype error =
    Timeout string nat detail
  | QueueCleared string
  | BrowserClosed string
  | BrowserNotLaunched
  | Failure string

datatype outcome = Resolved "event option" | Rejected error

text \<open>
  The functions stored in a pending entry, told apart by identity: the \<^verbatim>\<open>resolve\<close>
  and \<^verbatim>\<open>reject\<close> of the promise numbered \<open>k\<close>, and the \<^verbatim>\<open>wrappedResolve\<close>
  closure built around that \<^verbatim>\<open>resolve\<close>.
\<close>

datatype resolver = Resolve nat | WrappedResolve nat

datatype rejecter = Reject nat

record pending =
  resolve :: resolver
  reject :: rejecter
  timeoutId :: nat

datatype timer_kind = WaitTimeout string nat | SleepDone

record timer =
  tid :: nat
  kind :: timer_kind
  promise :: nat
  deadline :: nat

subsection \<open>What a run does to the outside\<close>

text \<open>
  The calls to the browser automation, the lines written to the console (kept by kind),
  and the effects of a run in the order they happen. \<open>Registered T n\<close> records a call of
  \<^verbatim>\<open>waitForAudioEvent\<close> for type \<open>T\<close> with timeout \<open>n\<close>; the last three are the
  calls to the report generator.
\<close>

datatype call =
    Launch string | InjectScripts | Goto string | WaitForNetworkIdle | CloseBrowser
  | GetStream | StartAudioFromUrl string | StopAudioFromUrl
  | WaitForSelector string | Click string | Focus string | TypeText string string
  | FillValue string string | SelectValues string "string list" | SelectByText string string
  | ClickOptionByText string string | Screenshot string
  | ElementInfo string | ReadChecked string
  | SpeakFromUrl string | Speak string | StartRecording | StopRecording

datatype console =
    Published string "string option"
  | UnknownAction string
  | ElapsedTime nat
  | ErrorExecutingStep nat string error
  | ExecutingStep nat
  | ErrorDuringScenario error
  | TimeoutWaitingForSpeech error
  | ErrorInListen error
  | WaitingForSelector string
  | DebugLine string
  | AudioSavedAs string
  | Transcription string
  | EvaluationResult int string
  | ErrorSavingWav string
  | StartAudioLine string
  | RecordingLine string

datatype effect =
    Console console
  | Auto call
  | Registered string nat
  | SaveWav string
  | Transcribe string
  | Evaluate string string
  | BeginRun
  | RecordStepMetric nat string string int
  | EndRun bool

subsection \<open>The tester object\<close>

text \<open>
  The fields of \<^verbatim>\<open>VoiceAgentTester\<close> that the modelled methods read or write, and
  the run-time state behind them: the timers armed with \<^verbatim>\<open>setTimeout\<close>, the promises
  already settled, a counter for fresh promise and timer numbers, the clock in
  milliseconds, the events the page is going to report (arrival time, type, payload, in
  arrival order) and the effects so far. Objects are kept as flags saying whether they are
  there; \<open>recording\<close> is the option \<^verbatim>\<open>record\<close>.
\<close>

record tester =
  debug :: bool
  browser :: bool
  page :: bool
  reportGenerator :: bool
  recording :: bool
  recordingStream :: bool
  audioUrl :: "string option"
  pendingPromises :: "(string \<times> pending list) list"
  timers :: "timer list"
  promises :: "nat \<rightharpoonup> outcome"
  nextId :: nat
  clock :: nat
  inbox :: "(nat \<times> string \<times> payload option) list"
  trace :: "effect list"

definition say :: "console \<Rightarrow> tester \<Rightarrow> tester" where
  "say c w = w\<lparr>trace := trace w @ [Console c]\<rparr>"

definition emit :: "effect \<Rightarrow> tester \<Rightarrow> tester" where
  "emit e w = w\<lparr>trace := trace w @ [e]\<rparr>"

text \<open>
  The page and the collaborators, as one run sees them. \<open>answer c\<close> is \<open>Some msg\<close>
  when the automation call \<open>c\<close> throws an error with that message. The last three
  fields stand for the functions of the transcription module, which fail with a message
  or return the path of the saved file, the transcription, and the score with its
  explanation.
\<close>

record page_env =
  answer :: "call \<Rightarrow> string option"
  fileExists :: "string \<Rightarrow> bool"
  diagnostics :: "string option"
  elementInfo :: "string \<Rightarrow> string \<times> string option \<times> bool"
  isChecked :: "string \<Rightarrow> bool"
  pcmToWav :: "string \<Rightarrow> string + string"
  transcribeAudio :: "string \<Rightarrow> string + string"
  evaluateTranscription :: "string \<Rightarrow> string \<Rightarrow> string + int \<times> string"

subsection \<open>Event broker\<close>

text \<open>Settling a promise has an effect only the first time.\<close>

definition settle :: "nat \<Rightarrow> outcome \<Rightarrow> tester \<Rightarrow> tester" where
  "settle k out w = (if promises w k = None then w\<lparr>promises := (promises w)(k \<mapsto> out)\<rparr> else w)"

fun call_resolve :: "resolver \<Rightarrow> event option \<Rightarrow> tester \<Rightarrow> tester" where
  "call_resolve (Resolve k) v w = settle k (Resolved v) w"
| "call_resolve (WrappedResolve k) v w = settle k (Resolved v) w"

fun call_reject :: "rejecter \<Rightarrow> error \<Rightarrow> tester \<Rightarrow> tester" where
  "call_reject (Reject k) e w = settle k (Rejected e) w"

definition clearTimeout :: "nat \<Rightarrow> tester \<Rightarrow> tester" where
  "clearTimeout i w = w\<lparr>timers := filter (\<lambda>t. tid t \<noteq> i) (timers w)\<rparr>"

definition DEFAULT_TIMEOUT :: nat where
  "DEFAULT_TIMEOUT = 30000"

text \<open>
  \<^verbatim>\<open>waitForAudioEvent(eventType, timeout = 30000)\<close>: arms the timeout, then pushes
  \<^verbatim>\<open>{ resolve: wrappedResolve, reject, timeoutId }\<close> on the list of the event type.
  The result is the number of the new promise.
\<close>

definition waitForAudioEvent :: "string \<Rightarrow> nat option \<Rightarrow> tester \<Rightarrow> nat \<times> tester" where
  "waitForAudioEvent T timeout_arg w =
     (let timeout = (case timeout_arg of None \<Rightarrow> DEFAULT_TIMEOUT | Some t \<Rightarrow> t);
          k = nextId w;
          w1 = w\<lparr>nextId := Suc k,
                 timers := timers w @
                   [\<lparr>tid = k, kind = WaitTimeout T timeout, promise = k,
                     deadline = clock w + timeout\<rparr>],
                 trace := trace w @ [Registered T timeout]\<rparr>;
          w2 = (if map_of (pendingPromises w1) T = None
                then w1\<lparr>pendingPromises := AList.update T [] (pendingPromises w1)\<rparr> else w1);
          entry = \<lparr>resolve = WrappedResolve k, reject = Reject k, timeoutId = k\<rparr>;
          old = (case map_of (pendingPromises w2) T of None \<Rightarrow> [] | Some ps \<Rightarrow> ps)
      in (k, w2\<lparr>pendingPromises := AList.update T (old @ [entry]) (pendingPromises w2)\<rparr>))"

text \<open>The \<^verbatim>\<open>__publishEvent\<close> callback registered in \<^verbatim>\<open>launch\<close>.\<close>

definition publishEvent :: "string \<Rightarrow> payload option \<Rightarrow> tester \<Rightarrow> tester" where
  "publishEvent T d w =
     (let ev = \<lparr>eventType = T, data = d, timestamp = clock w\<rparr>;
          w1 = say (Published T (case d of None \<Rightarrow> None | Some p \<Rightarrow> elementId p)) w
      in case map_of (pendingPromises w1) T of
           None \<Rightarrow> w1
         | Some [] \<Rightarrow> w1
         | Some (p # rest) \<Rightarrow>
             (let w2 = clearTimeout (timeoutId p) w1;
                  w3 = (if length rest = 0
                        then w2\<lparr>pendingPromises := AList.delete T (pendingPromises w2)\<rparr>
                        else w2\<lparr>pendingPromises := AList.update T rest (pendingPromises w2)\<rparr>)
              in call_resolve (resolve p) (Some ev) w3))"

text \<open>\<^verbatim>\<open>Array.prototype.findIndex\<close>, with \<open>None\<close> for \<open>-1\<close>.\<close>

fun findIndex :: "('a \<Rightarrow> bool) \<Rightarrow> 'a list \<Rightarrow> nat option" where
  "findIndex P [] = None"
| "findIndex P (x # xs) =
     (if P x then Some 0 else (case findIndex P xs of None \<Rightarrow> None | Some i \<Rightarrow> Some (Suc i)))"

definition collectDiagnostics :: "page_env \<Rightarrow> tester \<Rightarrow> string option" where
  "collectDiagnostics env w =
     (if \<not> debug w then None else if page w then diagnostics env else None)"

text \<open>
  The callback of the timeout armed by \<^verbatim>\<open>waitForAudioEvent\<close> for promise \<open>k\<close>. It
  looks for the entry whose \<^verbatim>\<open>resolve\<close> field is the \<^verbatim>\<open>resolve\<close> of this promise,
  removes it when found, and rejects the promise. In debug mode the callback collects
  diagnostics from the page between the two; the model runs the callback in one piece.
  The periodic logging armed in debug mode only writes to the console and is left out.
\<close>

definition onTimeout :: "page_env \<Rightarrow> nat \<Rightarrow> string \<Rightarrow> nat \<Rightarrow> tester \<Rightarrow> tester" where
  "onTimeout env k T timeout w =
     (let ps = (case map_of (pendingPromises w) T of None \<Rightarrow> [] | Some ps \<Rightarrow> ps);
          w1 = (case findIndex (\<lambda>p. resolve p = Resolve k) ps of
                  None \<Rightarrow> w
                | Some i \<Rightarrow>
                    (let ps' = take i ps @ drop (Suc i) ps
                     in if length ps' = 0
                        then w\<lparr>pendingPromises := AList.delete T (pendingPromises w)\<rparr>
                        else w\<lparr>pendingPromises := AList.update T ps' (pendingPromises w)\<rparr>));
          det = (if debug w1
                 then (case collectDiagnostics env w1 of
                         Some d \<Rightarrow> Snapshot d | None \<Rightarrow> CouldNotCollect)
                 else NoDetail)
      in call_reject (Reject k) (Timeout T timeout det) w1)"

text \<open>
  The loop over the map entries shared by \<^verbatim>\<open>clearAudioEventQueue\<close> and
  \<^verbatim>\<open>close\<close>, which differ in the error they reject with.
\<close>

definition reject_entries :: "(string \<Rightarrow> error) \<Rightarrow> string \<times> pending list \<Rightarrow> tester \<Rightarrow> tester" where
  "reject_entries mk entry w =
     fold (\<lambda>p w'. call_reject (reject p) (mk (fst entry)) (clearTimeout (timeoutId p) w'))
       (snd entry) w"

definition reject_all :: "(string \<Rightarrow> error) \<Rightarrow> tester \<Rightarrow> tester" where
  "reject_all mk w = (fold (reject_entries mk) (pendingPromises w) w)\<lparr>pendingPromises := []\<rparr>"

definition clearAudioEventQueue :: "tester \<Rightarrow> tester" where
  "clearAudioEventQueue w = reject_all QueueCleared w"

subsection \<open>Asynchronous control flow\<close>

text \<open>
  The result of an \<^verbatim>\<open>async\<close> method: a value, a thrown error, or no result at all
  when the promise it awaits is never settled.
\<close>

datatype 'a result = Ok 'a | Err error | Hang

type_synonym 'a action = "tester \<Rightarrow> 'a result \<times> tester"

definition ret :: "'a \<Rightarrow> 'a action" where
  "ret x w = (Ok x, w)"

definition throw :: "error \<Rightarrow> 'a action" where
  "throw e w = (Err e, w)"

definition bnd :: "'a action \<Rightarrow> ('a \<Rightarrow> 'b action) \<Rightarrow> 'b action" where
  "bnd m f w =
     (case m w of (Ok x, w') \<Rightarrow> f x w' | (Err e, w') \<Rightarrow> (Err e, w') | (Hang, w') \<Rightarrow> (Hang, w'))"

definition try_catch :: "'a action \<Rightarrow> (error \<Rightarrow> 'a action) \<Rightarrow> 'a action" where
  "try_catch m h w =
     (case m w of (Ok x, w') \<Rightarrow> (Ok x, w') | (Err e, w') \<Rightarrow> h e w' | (Hang, w') \<Rightarrow> (Hang, w'))"

definition effect_only :: "(tester \<Rightarrow> tester) \<Rightarrow> unit action" where
  "effect_only f w = (Ok (), f w)"

text \<open>An automation call: it is recorded, and throws when the page says so.\<close>

definition auto_call :: "page_env \<Rightarrow> call \<Rightarrow> unit action" where
  "auto_call env c w =
     (case answer env c of
        None \<Rightarrow> (Ok (), emit (Auto c) w)
      | Some msg \<Rightarrow> (Err (Failure msg), emit (Auto c) w))"

subsection \<open>The event loop\<close>

text \<open>
  Between two steps of the awaiting method the loop runs callbacks: the callback of the
  timer that is due first, or \<^verbatim>\<open>__publishEvent\<close> for the next event of the page,
  whichever comes first in time. A timer due at the arrival time of an event runs before
  it. The clock moves to the time of the callback. Automation calls take no time.
\<close>

fun earliest :: "timer list \<Rightarrow> timer option" where
  "earliest [] = None"
| "earliest (t # ts) =
     (case earliest ts of
        None \<Rightarrow> Some t
      | Some u \<Rightarrow> if deadline u < deadline t then Some u else Some t)"

definition fire :: "page_env \<Rightarrow> timer \<Rightarrow> tester \<Rightarrow> tester" where
  "fire env t w =
     (let w1 = w\<lparr>timers := filter (\<lambda>u. tid u \<noteq> tid t) (timers w),
                 clock := max (clock w) (deadline t)\<rparr>
      in case kind t of
           WaitTimeout T timeout \<Rightarrow> onTimeout env (promise t) T timeout w1
         | SleepDone \<Rightarrow> settle (promise t) (Resolved None) w1)"

definition deliver :: "nat \<times> string \<times> payload option \<Rightarrow> tester \<Rightarrow> tester" where
  "deliver e w =
     publishEvent (fst (snd e)) (snd (snd e))
       (w\<lparr>inbox := tl (inbox w), clock := max (clock w) (fst e)\<rparr>)"

definition tick :: "page_env \<Rightarrow> tester \<Rightarrow> tester option" where
  "tick env w =
     (case earliest (timers w) of
        None \<Rightarrow> (case inbox w of [] \<Rightarrow> None | e # es \<Rightarrow> Some (deliver e w))
      | Some t \<Rightarrow>
          (case inbox w of
             [] \<Rightarrow> Some (fire env t w)
           | e # es \<Rightarrow> if deadline t \<le> fst e then Some (fire env t w) else Some (deliver e w)))"

lemma earliest_mem: "earliest ts = Some t \<Longrightarrow> t \<in> set ts"
  by (induction ts arbitrary: t) (auto split: option.splits if_splits)

lemma settle_fields [simp]:
  "timers (settle k out w) = timers w" "inbox (settle k out w) = inbox w"
  "pendingPromises (settle k out w) = pendingPromises w" "clock (settle k out w) = clock w"
  "trace (settle k out w) = trace w" "debug (settle k out w) = debug w"
  "page (settle k out w) = page w" "browser (settle k out w) = browser w"
  "nextId (settle k out w) = nextId w" "reportGenerator (settle k out w) = reportGenerator w"
  by (simp_all add: settle_def)

lemma call_resolve_settle: "call_resolve r v w = settle (case r of Resolve k \<Rightarrow> k | WrappedResolve k \<Rightarrow> k) (Resolved v) w"
  by (cases r) simp_all

lemma call_reject_settle: "call_reject r e w = settle (case r of Reject k \<Rightarrow> k) (Rejected e) w"
  by (cases r) simp_all

lemma onTimeout_timers [simp]:
  "timers (onTimeout env k T n w) = timers w" "inbox (onTimeout env k T n w) = inbox w"
  by (simp_all add: onTimeout_def Let_def split: option.splits)

lemma publishEvent_timers:
  "length (timers (publishEvent T d w)) \<le> length (timers w)"
  "inbox (publishEvent T d w) = inbox w"
  by (simp_all add: publishEvent_def say_def clearTimeout_def call_resolve_settle Let_def
      split: option.splits list.splits)

lemma fire_decreases:
  "t \<in> set (timers w) \<Longrightarrow> length (timers (fire env t w)) < length (timers w)"
  "inbox (fire env t w) = inbox w"
  by (auto simp: fire_def Let_def split: timer_kind.splits intro!: length_filter_less)

lemma deliver_decreases:
  "inbox w \<noteq> [] \<Longrightarrow> length (inbox (deliver e w)) < length (inbox w)"
  "length (timers (deliver e w)) \<le> length (timers w)"
  using publishEvent_timers(1)[of "fst (snd e)" "snd (snd e)" "w\<lparr>inbox := tl (inbox w), clock := max (clock w) (fst e)\<rparr>"]
  by (simp_all add: deliver_def publishEvent_timers(2))

lemma tick_decreases:
  assumes "tick env w = Some w'"
  shows "length (timers w') + length (inbox w') < length (timers w) + length (inbox w)"
proof (cases "earliest (timers w)")
  case None
  with assms obtain e es where "inbox w = e # es" "w' = deliver e w"
    by (auto simp: tick_def split: list.splits)
  then show ?thesis
    using deliver_decreases(1)[of w e] deliver_decreases(2)[of e w] by simp
next
  case (Some t)
  then have mem: "t \<in> set (timers w)" by (rule earliest_mem)
  from assms Some consider "w' = fire env t w" | e where "inbox w \<noteq> []" "w' = deliver e w"
    by (auto simp: tick_def split: list.splits if_splits)
  then show ?thesis
  proof cases
    case 1
    then show ?thesis using fire_decreases(1)[OF mem, of env] fire_decreases(2)[of env t w] by simp
  next
    case 2
    then show ?thesis
      using deliver_decreases(1)[of w e] deliver_decreases(2)[of e w] by simp
  qed
qed

function await :: "page_env \<Rightarrow> nat \<Rightarrow> tester \<Rightarrow> outcome option \<times> tester" where
  "await env k w =
     (case promises w k of
        Some out \<Rightarrow> (Some out, w)
      | None \<Rightarrow> (case tick env w of None \<Rightarrow> (None, w) | Some w' \<Rightarrow> await env k w'))"
  by pat_completeness auto
termination
  by (relation "measure (\<lambda>(env, k, w). length (timers w) + length (inbox w))")
     (auto dest: tick_decreases)

declare await.simps [simp del]

subsection \<open>Waiting and sleeping\<close>

definition awaiting :: "page_env \<Rightarrow> nat \<Rightarrow> event option action" where
  "awaiting env k w =
     (case await env k w of
        (Some (Resolved v), w') \<Rightarrow> (Ok v, w')
      | (Some (Rejected e), w') \<Rightarrow> (Err e, w')
      | (None, w') \<Rightarrow> (Hang, w'))"

text \<open>\<^verbatim>\<open>await this.waitForAudioEvent(eventType)\<close>\<close>

definition wait_event :: "page_env \<Rightarrow> string \<Rightarrow> nat option \<Rightarrow> event option action" where
  "wait_event env T timeout_arg w =
     (let (k, w1) = waitForAudioEvent T timeout_arg w in awaiting env k w1)"

text \<open>\<^verbatim>\<open>await this.sleep(time)\<close>: a promise resolved by a timer.\<close>

definition sleep :: "page_env \<Rightarrow> nat \<Rightarrow> unit action" where
  "sleep env ms w =
     (let k = nextId w;
          w1 = w\<lparr>nextId := Suc k,
                 timers := timers w @
                   [\<lparr>tid = k, kind = SleepDone, promise = k, deadline = clock w + ms\<rparr>]\<rparr>
      in bnd (awaiting env k) (\<lambda>v. ret ()) w1)"

subsection \<open>Steps and their handlers\<close>

record step =
  s_action :: string
  s_selector :: "string option"
  s_text :: "string option"
  s_file :: "string option"
  s_evaluation :: "string option"
  s_time :: "nat option"
  s_value :: "string option"
  s_values :: "string list option"
  s_checked :: "bool option"
  s_filename :: "string option"
  s_outputDir :: "string option"
  s_metrics :: "string list option"

text \<open>What a handler returns: nothing, the score object of a listen step, or a path.\<close>

datatype hresult = Undefined | ScoreObject int | PathString string

text \<open>\<^verbatim>\<open>!x\<close> for an optional string: undefined and the empty string are falsy.\<close>

definition falsy :: "string option \<Rightarrow> bool" where
  "falsy x = (case x of None \<Rightarrow> True | Some s \<Rightarrow> s = [])"

definition str :: "string option \<Rightarrow> string" where
  "str x = (case x of None \<Rightarrow> [] | Some s \<Rightarrow> s)"

definition debug_line :: "string \<Rightarrow> unit action" where
  "debug_line s w = (Ok (), if debug w then say (DebugLine s) w else w)"

definition handleClick :: "page_env \<Rightarrow> step \<Rightarrow> hresult action" where
  "handleClick env st =
     (if falsy (s_selector st) then throw (Failure ''No selector specified for click action'')
      else bnd (auto_call env (WaitForSelector (str (s_selector st)))) (\<lambda>u.
           bnd (auto_call env (Click (str (s_selector st)))) (\<lambda>u. ret Undefined)))"

definition handleWaitForVoice :: "page_env \<Rightarrow> hresult action" where
  "handleWaitForVoice env =
     bnd (debug_line ''Waiting for audio to start (AI agent response)...'') (\<lambda>u.
     bnd (wait_event env ''audiostart'' None) (\<lambda>ev.
     bnd (debug_line ''Audio detected'') (\<lambda>u. ret Undefined)))"

definition handleWaitForSilence :: "page_env \<Rightarrow> hresult action" where
  "handleWaitForSilence env =
     bnd (debug_line ''Waiting for audio to stop (silence)...'') (\<lambda>u.
     bnd (wait_event env ''audiostop'' None) (\<lambda>ev.
     bnd (debug_line ''Silence detected'') (\<lambda>u. ret Undefined)))"

definition handleWait :: "page_env \<Rightarrow> step \<Rightarrow> hresult action" where
  "handleWait env st =
     (if falsy (s_selector st) then throw (Failure ''No selector specified for wait action'')
      else bnd (effect_only (say (WaitingForSelector (str (s_selector st))))) (\<lambda>u.
           bnd (auto_call env (WaitForSelector (str (s_selector st)))) (\<lambda>u. ret Undefined)))"

definition handleSpeak :: "page_env \<Rightarrow> step \<Rightarrow> hresult action" where
  "handleSpeak env st =
     (if falsy (s_text st) \<and> falsy (s_file st)
      then throw (Failure ''No text or file specified for speak action'')
      else if \<not> falsy (s_text st) \<and> \<not> falsy (s_file st)
      then throw (Failure ''Cannot specify both text and file for speak action'')
      else
        bnd (if \<not> falsy (s_file st)
             then (if \<not> fileExists env (str (s_file st))
                   then throw (Failure (''Audio file not found: '' @ str (s_file st)))
                   else auto_call env (SpeakFromUrl (str (s_file st))))
             else auto_call env (Speak (str (s_text st)))) (\<lambda>u.
        bnd (try_catch (wait_event env ''speechend'' None)
               (\<lambda>e. bnd (effect_only (say (TimeoutWaitingForSpeech e))) (\<lambda>u. throw e)))
            (\<lambda>ev. ret Undefined)))"

text \<open>
  \<^verbatim>\<open>saveAudioAsWAV\<close>: the conversion is done by \<^verbatim>\<open>pcmToWav\<close> of the transcription
  module; a failure is logged and thrown again under a new message.
\<close>

definition saveAudioAsWAV :: "page_env \<Rightarrow> string \<Rightarrow> string action" where
  "saveAudioAsWAV env audio w =
     (case pcmToWav env audio of
        Inl msg \<Rightarrow> (Err (Failure (''Failed to save WAV: '' @ msg)),
                    say (ErrorSavingWav msg) (emit (SaveWav audio) w))
      | Inr path \<Rightarrow> (Ok path, emit (SaveWav audio) w))"

definition transcribe :: "page_env \<Rightarrow> string \<Rightarrow> string action" where
  "transcribe env path w =
     (case transcribeAudio env path of
        Inl msg \<Rightarrow> (Err (Failure msg), emit (Transcribe path) w)
      | Inr t \<Rightarrow> (Ok t, emit (Transcribe path) w))"

definition evaluate :: "page_env \<Rightarrow> string \<Rightarrow> string \<Rightarrow> (int \<times> string) action" where
  "evaluate env t prompt w =
     (case evaluateTranscription env t prompt of
        Inl msg \<Rightarrow> (Err (Failure msg), emit (Evaluate t prompt) w)
      | Inr r \<Rightarrow> (Ok r, emit (Evaluate t prompt) w))"

definition handleListen :: "page_env \<Rightarrow> step \<Rightarrow> hresult action" where
  "handleListen env st =
     (if falsy (s_evaluation st)
      then throw (Failure ''No evaluation prompt specified for listen action'')
      else
        try_catch
          (bnd (auto_call env StartRecording) (\<lambda>u.
           bnd (wait_event env ''recordingstart'' None) (\<lambda>e1.
           bnd (wait_event env ''audiostart'' None) (\<lambda>e2.
           bnd (wait_event env ''audiostop'' None) (\<lambda>e3.
           bnd (auto_call env StopRecording) (\<lambda>u.
           bnd (wait_event env ''recordingcomplete'' None) (\<lambda>recordingEvent.
             (case recordingEvent of
                None \<Rightarrow> throw (Failure ''TypeError'')
              | Some ev \<Rightarrow>
                  (case data ev of
                     None \<Rightarrow> throw (Failure ''TypeError'')
                   | Some d \<Rightarrow>
                       bnd (saveAudioAsWAV env (audioData d)) (\<lambda>audioFilePath.
                       bnd (effect_only (say (AudioSavedAs audioFilePath))) (\<lambda>u.
                       bnd (transcribe env audioFilePath) (\<lambda>transcription.
                       bnd (effect_only (say (Transcription transcription))) (\<lambda>u.
                       bnd (evaluate env transcription (str (s_evaluation st)))
                         (\<lambda>evaluationResult.
                       bnd (effect_only (say (EvaluationResult (fst evaluationResult)
                                                (snd evaluationResult)))) (\<lambda>u.
                       ret (ScoreObject (fst evaluationResult)))))))))))))))))
          (\<lambda>e. bnd (effect_only (say (ErrorInListen e))) (\<lambda>u. throw e)))"

definition handleSleep :: "page_env \<Rightarrow> step \<Rightarrow> hresult action" where
  "handleSleep env st =
     (case s_time st of
        None \<Rightarrow> throw (Failure ''No time specified for sleep action'')
      | Some t \<Rightarrow>
          if t = 0 then throw (Failure ''No time specified for sleep action'')
          else bnd (sleep env t) (\<lambda>u. ret Undefined))"

definition handleWaitForElement :: "page_env \<Rightarrow> step \<Rightarrow> hresult action" where
  "handleWaitForElement env st =
     (if falsy (s_selector st)
      then throw (Failure ''No selector specified for wait_for_element action'')
      else bnd (auto_call env (WaitForSelector (str (s_selector st)))) (\<lambda>u. ret Undefined))"

definition handleType :: "page_env \<Rightarrow> step \<Rightarrow> hresult action" where
  "handleType env st =
     (if falsy (s_selector st) then throw (Failure ''No selector specified for type action'')
      else if falsy (s_text st) then throw (Failure ''No text specified for type action'')
      else bnd (auto_call env (WaitForSelector (str (s_selector st)))) (\<lambda>u.
           bnd (auto_call env (Focus (str (s_selector st)))) (\<lambda>u.
           bnd (auto_call env (TypeText (str (s_selector st)) (str (s_text st)))) (\<lambda>u.
           ret Undefined))))"

definition handleFill :: "page_env \<Rightarrow> step \<Rightarrow> hresult action" where
  "handleFill env st =
     (if falsy (s_selector st) then throw (Failure ''No selector specified for fill action'')
      else if s_text st = None then throw (Failure ''No text specified for fill action'')
      else bnd (auto_call env (WaitForSelector (str (s_selector st)))) (\<lambda>u.
           bnd (auto_call env (FillValue (str (s_selector st)) (str (s_text st)))) (\<lambda>u.
           ret Undefined)))"

definition handleSelectDropdown ::
  "page_env \<Rightarrow> string \<Rightarrow> string option \<Rightarrow> string list option \<Rightarrow> string option \<Rightarrow> bool \<Rightarrow>
   unit action" where
  "handleSelectDropdown env sel v vs txt isMultiple =
     (case vs of
        Some many \<Rightarrow>
          if \<not> isMultiple
          then throw (Failure ''Cannot select multiple values on a single-select dropdown'')
          else auto_call env (SelectValues sel many)
      | None \<Rightarrow>
          (case v of
             Some one \<Rightarrow> auto_call env (SelectValues sel [one])
           | None \<Rightarrow>
               (case txt of
                  Some t \<Rightarrow> auto_call env (SelectByText sel t)
                | None \<Rightarrow>
                    throw (Failure ''No value, values, or text specified for select dropdown''))))"

definition handleSelectCheckbox :: "page_env \<Rightarrow> string \<Rightarrow> bool option \<Rightarrow> unit action" where
  "handleSelectCheckbox env sel chk =
     bnd (auto_call env (ReadChecked sel)) (\<lambda>u.
       (let currentState = isChecked env sel;
            targetState = (case chk of Some c \<Rightarrow> c | None \<Rightarrow> \<not> currentState)
        in if currentState \<noteq> targetState then auto_call env (Click sel) else ret ()))"

definition handleSelectRadio :: "page_env \<Rightarrow> string \<Rightarrow> unit action" where
  "handleSelectRadio env sel = auto_call env (Click sel)"

definition handleSelectCustom :: "page_env \<Rightarrow> string \<Rightarrow> string option \<Rightarrow> unit action" where
  "handleSelectCustom env sel txt =
     (case txt of
        Some t \<Rightarrow> auto_call env (ClickOptionByText sel t)
      | None \<Rightarrow> auto_call env (Click sel))"

definition handleSelect :: "page_env \<Rightarrow> step \<Rightarrow> hresult action" where
  "handleSelect env st =
     (if falsy (s_selector st) then throw (Failure ''No selector specified for select action'')
      else
        (let sel = str (s_selector st) in
         bnd (auto_call env (WaitForSelector sel)) (\<lambda>u.
         bnd (auto_call env (ElementInfo sel)) (\<lambda>u.
         bnd (case elementInfo env sel of
                (tagName, ty, multiple) \<Rightarrow>
                  if tagName = ''SELECT''
                  then handleSelectDropdown env sel (s_value st) (s_values st) (s_text st) multiple
                  else if tagName = ''INPUT''
                  then (if ty = Some ''checkbox'' then handleSelectCheckbox env sel (s_checked st)
                        else if ty = Some ''radio'' then handleSelectRadio env sel
                        else throw (Failure (''Select action not supported for input type: ''
                                             @ str ty)))
                  else handleSelectCustom env sel (s_text st)) (\<lambda>u.
         ret Undefined)))))"

text \<open>
  The default file name of a screenshot carries the current time in the source; the model
  uses a fixed name.
\<close>

definition handleScreenshot :: "page_env \<Rightarrow> step \<Rightarrow> hresult action" where
  "handleScreenshot env st w =
     (if \<not> page w then (Err BrowserNotLaunched, w)
      else
        (let filename = (if falsy (s_filename st) then ''screenshot.png'' else str (s_filename st));
             outputDir = (if falsy (s_outputDir st) then ''output'' else str (s_outputDir st));
             screenshotPath = outputDir @ ''/'' @ filename
         in bnd (auto_call env (Screenshot screenshotPath)) (\<lambda>u. ret (PathString screenshotPath)) w))"

subsection \<open>executeStep\<close>

text \<open>The \<^verbatim>\<open>switch (action)\<close>; its default branch only writes a line.\<close>

definition dispatch :: "page_env \<Rightarrow> step \<Rightarrow> hresult action" where
  "dispatch env st =
     (let a = s_action st in
      if a = ''click'' then handleClick env st
      else if a = ''wait_for_voice'' then handleWaitForVoice env
      else if a = ''wait_for_silence'' then handleWaitForSilence env
      else if a = ''wait'' then handleWait env st
      else if a = ''speak'' then handleSpeak env st
      else if a = ''listen'' then handleListen env st
      else if a = ''sleep'' then handleSleep env st
      else if a = ''wait_for_element'' then handleWaitForElement env st
      else if a = ''type'' then handleType env st
      else if a = ''fill'' then handleFill env st
      else if a = ''select'' then handleSelect env st
      else if a = ''screenshot'' then handleScreenshot env st
      else bnd (effect_only (say (UnknownAction a))) (\<lambda>u. ret Undefined))"

text \<open>\<^verbatim>\<open>error.message.split('\n')[0]\<close>: the message without its detail.\<close>

definition first_line :: "string \<Rightarrow> string" where
  "first_line s = takeWhile (\<lambda>c. c \<noteq> CHR 0x0A) s"

fun shortMessage :: "error \<Rightarrow> error" where
  "shortMessage (Timeout T n d) = Timeout T n NoDetail"
| "shortMessage (Failure msg) = Failure (first_line msg)"
| "shortMessage e = e"

text \<open>The block after the \<^verbatim>\<open>switch\<close> that reports metrics.\<close>

definition record_metrics :: "step \<Rightarrow> nat \<Rightarrow> nat \<Rightarrow> hresult \<Rightarrow> tester \<Rightarrow> tester" where
  "record_metrics st stepIndex elapsedTimeMs handlerResult w =
     (case s_metrics st of
        None \<Rightarrow> w
      | Some ms \<Rightarrow>
          if \<not> reportGenerator w then w
          else
            (let w1 = (if ''elapsed_time'' \<in> set ms
                       then emit (RecordStepMetric stepIndex (s_action st) ''elapsed_time''
                                    (int elapsedTimeMs)) w
                       else w)
             in case handlerResult of
                  ScoreObject sc \<Rightarrow>
                    if ''score'' \<in> set ms
                    then emit (RecordStepMetric stepIndex (s_action st) ''score'' sc) w1
                    else w1
                | Undefined \<Rightarrow> w1
                | PathString p \<Rightarrow> w1))"

definition executeStep :: "page_env \<Rightarrow> step \<Rightarrow> nat \<Rightarrow> unit action" where
  "executeStep env st stepIndex w =
     (if \<not> page w then (Err BrowserNotLaunched, w)
      else
        (let beginTime = clock w in
         try_catch
           (bnd (dispatch env st) (\<lambda>handlerResult.
            bnd (effect_only (\<lambda>w'. say (ElapsedTime (clock w' - beginTime)) w')) (\<lambda>u.
            effect_only (\<lambda>w'. record_metrics st stepIndex (clock w' - beginTime)
                                handlerResult w'))))
           (\<lambda>e. bnd (effect_only (say (ErrorExecutingStep (stepIndex + 1) (s_action st)
                                         (shortMessage e))))
                  (\<lambda>u. throw e)) w))"

subsection \<open>Session life cycle and runScenario\<close>

text \<open>
  \<^verbatim>\<open>launch\<close>: nothing when a browser exists already. Starting the browser and opening
  the page is one automation call, which either throws before the tester has a browser or
  leaves it with a browser and a page.
\<close>

definition launch :: "page_env \<Rightarrow> string \<Rightarrow> unit action" where
  "launch env url w =
     (if browser w then (Ok (), w)
      else bnd (auto_call env (Launch url))
             (\<lambda>u. effect_only (\<lambda>w'. w'\<lparr>browser := True, page := True\<rparr>)) w)"

definition injectJavaScriptFiles :: "page_env \<Rightarrow> unit action" where
  "injectJavaScriptFiles env w =
     (if \<not> page w then (Err BrowserNotLaunched, w) else auto_call env InjectScripts w)"

definition startRecording :: "page_env \<Rightarrow> unit action" where
  "startRecording env w =
     (if \<not> recording w \<or> \<not> page w then (Ok (), w)
      else bnd (auto_call env GetStream)
             (\<lambda>u. effect_only (\<lambda>w'. say (RecordingLine ''started'')
                                       (w'\<lparr>recordingStream := True\<rparr>))) w)"

definition stopRecording :: "tester \<Rightarrow> tester" where
  "stopRecording w =
     (if \<not> recordingStream w then w
      else say (RecordingLine ''saved'') (w\<lparr>recordingStream := False\<rparr>))"

definition startAudioFromUrl :: "page_env \<Rightarrow> string \<Rightarrow> unit action" where
  "startAudioFromUrl env url =
     bnd (effect_only (say (StartAudioLine ''starting''))) (\<lambda>u.
     try_catch
       (bnd (auto_call env (StartAudioFromUrl url)) (\<lambda>u.
        effect_only (say (StartAudioLine ''started''))))
       (\<lambda>e. effect_only (say (StartAudioLine ''failed''))))"


text \<open>
  \<^verbatim>\<open>close\<close>: with a browser, it stops an active recording, rejects every pending
  entry, empties the map and closes the browser; without one it does nothing.
\<close>

definition close :: "page_env \<Rightarrow> unit action" where
  "close env w =
     (if browser w then
        bnd (effect_only stopRecording) (\<lambda>u.
        bnd (effect_only (reject_all BrowserClosed)) (\<lambda>u.
        bnd (auto_call env CloseBrowser) (\<lambda>u.
        effect_only (\<lambda>w'. w'\<lparr>browser := False, page := False\<rparr>)))) w
      else (Ok (), w))"

text \<open>The \<^verbatim>\<open>for\<close> loop over the steps of \<^verbatim>\<open>runScenario\<close>.\<close>

fun run_steps :: "page_env \<Rightarrow> nat \<Rightarrow> step list \<Rightarrow> unit action" where
  "run_steps env i [] w = (Ok (), w)"
| "run_steps env i (st # rest) w =
     (case executeStep env st i (say (ExecutingStep (i + 1)) w) of
        (Ok u, w') \<Rightarrow> run_steps env (Suc i) rest w'
      | (Err e, w') \<Rightarrow> (Err e, w')
      | (Hang, w') \<Rightarrow> (Hang, w'))"

text \<open>What \<^verbatim>\<open>runScenario\<close> does before the first step.\<close>

definition prologue :: "page_env \<Rightarrow> string \<Rightarrow> unit action" where
  "prologue env url =
     bnd (effect_only (\<lambda>w. if reportGenerator w then emit BeginRun w else w)) (\<lambda>u.
     bnd (launch env url) (\<lambda>u.
     bnd (injectJavaScriptFiles env) (\<lambda>u.
     bnd (auto_call env (Goto url)) (\<lambda>u.
     bnd (auto_call env WaitForNetworkIdle) (\<lambda>u.
     bnd (sleep env 500) (\<lambda>u.
     bnd (startRecording env) (\<lambda>u.
     (\<lambda>w. if falsy (audioUrl w) then (Ok (), w)
          else startAudioFromUrl env (str (audioUrl w)) w))))))))"




text \<open>The object built by the constructor, with the events the page is going to report.\<close>

definition new_tester ::
  "bool \<Rightarrow> bool \<Rightarrow> bool \<Rightarrow> string option \<Rightarrow> (nat \<times> string \<times> payload option) list \<Rightarrow> tester" where
  "new_tester dbg report rec aurl events =
     \<lparr>debug = dbg, browser = False, page = False, reportGenerator = report, recording = rec,
      recordingStream = False, audioUrl = aurl, pendingPromises = [], timers = [],
      promises = Map.empty, nextId = 0, clock = 0, inbox = events, trace = []\<rparr>"

definition no_step :: step where
  "no_step = \<lparr>s_action = [], s_selector = None, s_text = None, s_file = None, s_evaluation = None,
     s_time = None, s_value = None, s_values = None, s_checked = None, s_filename = None,
     s_outputDir = None, s_metrics = None\<rparr>"

definition quiet_answer :: "call \<Rightarrow> string option" where
  "quiet_answer c = None"

definition plain_element :: "string \<Rightarrow> string \<times> string option \<times> bool" where
  "plain_element sel = (''DIV'', None, False)"

definition never_checked :: "string \<Rightarrow> bool" where
  "never_checked sel = False"

definition wav_path :: "string \<Rightarrow> string + string" where
  "wav_path audio = Inr ''output/recording.wav''"

definition heard :: "string \<Rightarrow> string + string" where
  "heard path = Inr ''hello there''"

definition judged :: "string \<Rightarrow> string \<Rightarrow> string + int \<times> string" where
  "judged t prompt = Inr (8, ''polite greeting'')"

definition file_present :: "string \<Rightarrow> bool" where
  "file_present f = True"

definition good_page :: page_env where
  "good_page = \<lparr>answer = quiet_answer, fileExists = file_present, diagnostics = Some ''snapshot'',
     elementInfo = plain_element, isChecked = never_checked, pcmToWav = wav_path,
     transcribeAudio = heard, evaluateTranscription = judged\<rparr>"




subsection \<open>Notions used in the statements, and sample inputs\<close>

text \<open>The promise that a stored \<^verbatim>\<open>reject\<close> function belongs to.\<close>

definition promise_of :: "rejecter \<Rightarrow> nat" where
  "promise_of r = (case r of Reject k \<Rightarrow> k)"

text \<open>
  The outstanding waiters: the promises of the pending entries, in the order of the map,
  that are not settled yet.
\<close>

definition outstanding :: "tester \<Rightarrow> nat list" where
  "outstanding w =
     filter (\<lambda>k. promises w k = None)
       (concat (map (\<lambda>e. map (\<lambda>p. promise_of (reject p)) (snd e)) (pendingPromises w)))"

text \<open>A tester without its promises and timers, the part that the teardown loops leave alone.\<close>

definition session_of :: "tester \<Rightarrow> tester" where
  "session_of w = w\<lparr>promises := Map.empty, timers := []\<rparr>"

text \<open>The promises of the entries of a pending list.\<close>

definition ids :: "pending list \<Rightarrow> nat set" where
  "ids ps = (\<lambda>p. promise_of (reject p)) ` set ps"

text \<open>The cases of the \<^verbatim>\<open>switch\<close> in \<^verbatim>\<open>executeStep\<close>.\<close>

definition known_actions :: "string list" where
  "known_actions = [''click'', ''wait_for_voice'', ''wait_for_silence'', ''wait'', ''speak'',
     ''listen'', ''sleep'', ''wait_for_element'', ''type'', ''fill'', ''select'', ''screenshot'']"




text \<open>A tester with exactly one waiter, the one of promise \<open>k\<close>, and no other timer.\<close>

definition sole :: "nat \<Rightarrow> string \<Rightarrow> nat \<Rightarrow> nat \<Rightarrow> tester \<Rightarrow> bool" where
  "sole k T n D w \<longleftrightarrow>
     pendingPromises w = [(T, [\<lparr>resolve = WrappedResolve k, reject = Reject k, timeoutId = k\<rparr>])] \<and>
     timers w = [\<lparr>tid = k, kind = WaitTimeout T n, promise = k, deadline = D\<rparr>] \<and>
     promises w k = None"

text \<open>The detail of a timeout error raised on the tester \<open>w\<close>.\<close>

definition timeout_detail :: "page_env \<Rightarrow> tester \<Rightarrow> detail" where
  "timeout_detail env w =
     (if debug w
      then (case (if page w then diagnostics env else None) of
              Some d \<Rightarrow> Snapshot d | None \<Rightarrow> CouldNotCollect)
      else NoDetail)"

text \<open>The effects other than console lines.\<close>

fun is_call :: "effect \<Rightarrow> bool" where
  "is_call (Console c) = False"
| "is_call e = True"

definition calls :: "effect list \<Rightarrow> effect list" where
  "calls es = filter is_call es"

text \<open>
  Sample inputs: a tester right after a successful \<^verbatim>\<open>launch\<close>, with a report
  generator and the given events to come; a step with an unknown action; a tester on
  which a listen step succeeds.
\<close>

definition launched :: "bool \<Rightarrow> (nat \<times> string \<times> payload option) list \<Rightarrow> tester" where
  "launched dbg events = (new_tester dbg True False None events)\<lparr>browser := True, page := True\<rparr>"

definition hover_step :: step where
  "hover_step = no_step\<lparr>s_action := ''hover'', s_metrics := Some [''elapsed_time'']\<rparr>"


text \<open>Sample inputs: a tester with three waiters of two event types.\<close>

definition three_waiters :: tester where
  "three_waiters =
     snd (waitForAudioEvent ''audiostart'' None
       (snd (waitForAudioEvent ''audiostop'' None
         (snd (waitForAudioEvent ''audiostart'' None (launched False []))))))"



text \<open>
  A tester on which a wait of 10 ms for \<^verbatim>\<open>audiostart\<close> has timed out, and the same
  with a second wait for \<^verbatim>\<open>audiostart\<close> registered afterwards.
\<close>

definition short_wait_done :: tester where
  "short_wait_done =
     snd (wait_event good_page ''audiostart'' (Some 10) (launched False [(5000, ''audiostart'', None)]))"

definition second_waiter :: tester where
  "second_waiter = snd (waitForAudioEvent ''audiostart'' None short_wait_done)"

text \<open>Every \<^verbatim>\<open>resolve\<close> field stored in the map is a \<^verbatim>\<open>wrappedResolve\<close> closure.\<close>

definition all_wrapped :: "(string \<times> pending list) list \<Rightarrow> bool" where
  "all_wrapped al \<longleftrightarrow> (\<forall>e \<in> set al. \<forall>p \<in> set (snd e). \<exists>j. resolve p = WrappedResolve j)"

text \<open>No wait and no sleep is in progress, and promise numbers not yet handed out are unused.\<close>

definition idle :: "tester \<Rightarrow> bool" where
  "idle w \<longleftrightarrow>
     pendingPromises w = [] \<and> timers w = [] \<and> (\<forall>j. nextId w \<le> j \<longrightarrow> promises w j = None)"

text \<open>
  The state in which a step of a run begins: the page is there, nothing is pending, and
  the events still to come are listed in order of arrival.
\<close>

definition ready :: "tester \<Rightarrow> bool" where
  "ready w \<longleftrightarrow> page w \<and> idle w \<and> sorted (map fst (inbox w))"

text \<open>A tester whose only timer is the one of a sleep, for promise \<open>k\<close>.\<close>

definition napping :: "nat \<Rightarrow> nat \<Rightarrow> tester \<Rightarrow> bool" where
  "napping k D w \<longleftrightarrow>
     pendingPromises w = [] \<and>
     timers w = [\<lparr>tid = k, kind = SleepDone, promise = k, deadline = D\<rparr>] \<and>
     promises w k = None"

text \<open>What the event loop leaves alone while a single waiter or sleeper is served.\<close>

definition served :: "nat \<Rightarrow> tester \<Rightarrow> tester \<Rightarrow> bool" where
  "served k w w' \<longleftrightarrow>
     pendingPromises w' = [] \<and> timers w' = [] \<and> nextId w' = nextId w \<and> page w' = page w \<and>
     (\<exists>m. inbox w' = drop m (inbox w)) \<and> (\<forall>j. j \<noteq> k \<longrightarrow> promises w' j = promises w j)"

text \<open>An action keeps a property of the tester when each of its normal returns does.\<close>

definition keeps :: "(tester \<Rightarrow> bool) \<Rightarrow> 'a action \<Rightarrow> bool" where
  "keeps P m \<longleftrightarrow> (\<forall>w r w'. P w \<longrightarrow> m w = (Ok r, w') \<longrightarrow> P w')"

section \<open>Properties of the provisioning workflow\<close>

declare configure_loop.simps [simp del]

lemma attempt_once_retry:
  "retryable r \<Longrightarrow> attempt < MAX_RETRIES \<Longrightarrow>
   fst (attempt_once aid attempt r) = None \<and>
   sleeps (snd (attempt_once aid attempt r)) = [backoff attempt] \<and>
   posts (snd (attempt_once aid attempt r)) = [attempt]"
  by (auto simp: retryable_def attempt_once_def on_catch_def split: reply.splits option.splits)

lemma attempt_once_last:
  "retryable r \<Longrightarrow> \<not> attempt < MAX_RETRIES \<Longrightarrow>
   fst (attempt_once aid attempt r) = Some False \<and>
   sleeps (snd (attempt_once aid attempt r)) = [] \<and>
   posts (snd (attempt_once aid attempt r)) = [attempt]"
  by (auto simp: retryable_def attempt_once_def on_catch_def split: reply.splits option.splits)

lemma attempt_once_final:
  "\<not> retryable r \<Longrightarrow>
   fst (attempt_once aid attempt r) = Some (succeeded r) \<and>
   sleeps (snd (attempt_once aid attempt r)) = [] \<and>
   posts (snd (attempt_once aid attempt r)) = [attempt]"
  by (auto simp: retryable_def succeeded_def attempt_once_def on_catch_def
      split: reply.splits option.splits)

lemma sleeps_append: "sleeps (xs @ ys) = sleeps xs @ sleeps ys"
  by (induction xs rule: sleeps.induct) auto

lemma posts_append: "posts (xs @ ys) = posts xs @ posts ys"
  by (induction xs rule: posts.induct) auto

lemma loop_final:
  assumes "attempt \<le> MAX_RETRIES" "\<not> retryable (fetch attempt)"
  shows "fst (configure_loop fetch aid attempt) = succeeded (fetch attempt)"
    and "sleeps (snd (configure_loop fetch aid attempt)) = []"
    and "posts (snd (configure_loop fetch aid attempt)) = [attempt]"
  using assms attempt_once_final[of "fetch attempt" aid attempt]
  by (subst configure_loop.simps; cases "attempt_once aid attempt (fetch attempt)"; simp)+

lemma loop_retry:
  assumes "attempt < MAX_RETRIES" "retryable (fetch attempt)"
  shows "fst (configure_loop fetch aid attempt) = fst (configure_loop fetch aid (Suc attempt))"
    and "sleeps (snd (configure_loop fetch aid attempt)) =
           backoff attempt # sleeps (snd (configure_loop fetch aid (Suc attempt)))"
    and "posts (snd (configure_loop fetch aid attempt)) =
           attempt # posts (snd (configure_loop fetch aid (Suc attempt)))"
  using assms attempt_once_retry[of "fetch attempt" attempt aid]
  by (subst configure_loop.simps; cases "attempt_once aid attempt (fetch attempt)";
      simp add: sleeps_append posts_append split: prod.splits)+

lemma loop_last:
  assumes "attempt = MAX_RETRIES" "retryable (fetch attempt)"
  shows "fst (configure_loop fetch aid attempt) = False"
    and "sleeps (snd (configure_loop fetch aid attempt)) = []"
    and "posts (snd (configure_loop fetch aid attempt)) = [attempt]"
  using assms attempt_once_last[of "fetch attempt" attempt aid]
  by (subst configure_loop.simps; cases "attempt_once aid attempt (fetch attempt)"; simp)+

text \<open>The loop started at attempt \<open>a\<close>, when the first reply that ends it is the \<open>n\<close>-th.\<close>

lemma loop_upto:
  assumes "a \<le> n" "n \<le> MAX_RETRIES"
    and "\<forall>k. a \<le> k \<and> k < n \<longrightarrow> retryable (fetch k)" and "\<not> retryable (fetch n)"
  shows "fst (configure_loop fetch aid a) = succeeded (fetch n) \<and>
         sleeps (snd (configure_loop fetch aid a)) = map backoff [a..<n] \<and>
         posts (snd (configure_loop fetch aid a)) = [a..<Suc n]"
  using assms
proof (induction "n - a" arbitrary: a)
  case 0
  then have "a = n" by simp
  with 0 show ?case using loop_final[of n fetch aid] by simp
next
  case (Suc d)
  then have lt: "a < n" and r: "retryable (fetch a)" by auto
  have IH: "fst (configure_loop fetch aid (Suc a)) = succeeded (fetch n) \<and>
         sleeps (snd (configure_loop fetch aid (Suc a))) = map backoff [Suc a..<n] \<and>
         posts (snd (configure_loop fetch aid (Suc a))) = [Suc a..<Suc n]"
    using Suc by (intro Suc.hyps(1)) auto
  have "a < MAX_RETRIES" using lt Suc.prems by simp
  from loop_retry[of a fetch aid, OF this r] IH lt show ?case
    by (simp add: upt_conv_Cons)
qed

text \<open>The loop started at attempt \<open>a\<close>, when every remaining reply asks for a retry.\<close>

lemma loop_all:
  assumes "a \<le> MAX_RETRIES" "\<forall>k. a \<le> k \<and> k \<le> MAX_RETRIES \<longrightarrow> retryable (fetch k)"
  shows "fst (configure_loop fetch aid a) = False \<and>
         sleeps (snd (configure_loop fetch aid a)) = map backoff [a..<MAX_RETRIES] \<and>
         posts (snd (configure_loop fetch aid a)) = [a..<Suc MAX_RETRIES]"
  using assms
proof (induction "MAX_RETRIES - a" arbitrary: a)
  case 0
  then have "a = MAX_RETRIES" by simp
  with 0 show ?case using loop_last[of a fetch aid] by simp
next
  case (Suc d)
  then have lt: "a < MAX_RETRIES" and r: "retryable (fetch a)" by auto
  have IH: "fst (configure_loop fetch aid (Suc a)) = False \<and>
         sleeps (snd (configure_loop fetch aid (Suc a))) = map backoff [Suc a..<MAX_RETRIES] \<and>
         posts (snd (configure_loop fetch aid (Suc a))) = [Suc a..<Suc MAX_RETRIES]"
    using Suc by (intro Suc.hyps(1)) auto
  from loop_retry[of a fetch aid, OF lt r] IH lt show ?case
    by (simp add: upt_conv_Cons)
qed

lemma backoffs:
  assumes "n \<le> 5"
  shows "map backoff [1..<n] = take (n - 1) [500, 1000, 2000, 4000]"
proof -
  from assms consider "n = 0" | "n = 1" | "n = 2" | "n = 3" | "n = 4" | "n = 5" by linarith
  then show ?thesis
    by cases (simp_all add: backoff_def INITIAL_DELAY_MS_def upt_conv_Cons)
qed

lemma configure_parts:
  "fst (configureImportedAssistant fetch aid) = fst (configure_loop fetch aid 1)"
  "sleeps (snd (configureImportedAssistant fetch aid)) = sleeps (snd (configure_loop fetch aid 1))"
  "posts (snd (configureImportedAssistant fetch aid)) = posts (snd (configure_loop fetch aid 1))"
  by (simp_all add: configureImportedAssistant_def split: prod.splits)

lemma posts_configure_nonempty: "posts (snd (configureImportedAssistant fetch aid)) \<noteq> []"
proof -
  have "posts (snd (attempt_once aid 1 r)) \<noteq> []" for r
    by (auto simp: attempt_once_def on_catch_def split: reply.splits option.splits)
  from this[of "fetch 1"] have "posts (snd (configure_loop fetch aid 1)) \<noteq> []"
    by (subst configure_loop.simps; cases "attempt_once aid 1 (fetch 1)")
       (auto simp: MAX_RETRIES_def posts_append split: prod.splits option.splits)
  then show ?thesis by (simp add: configure_parts)
qed

lemma isReused_iff:
  "isReused env x \<longleftrightarrow>
     (\<exists>s t. x = Some s \<and> s \<noteq> [] \<and> date_parse env s = Some t \<and> date_now env - t > 60000)"
  by (auto simp: isReused_def split: option.splits)

text \<open>
  Claim C8, as the code has it. Configuration is retried after a 404 response and also
  after an exception of the request (a network error, or an error body that cannot be
  read). The pauses after attempts 1 to 4 are exactly 500, 1000, 2000 and 4000 ms. When
  the fifth attempt fails as well the call returns \<^verbatim>\<open>false\<close> (a warning, no exception).
  An error response other than 404 whose body can be read ends the call at once with
  \<^verbatim>\<open>false\<close>: no pause follows it and no further request is sent.
\<close>

theorem configure_retry_schedule:
  "((\<forall>k. 1 \<le> k \<and> k \<le> 5 \<longrightarrow> retryable (fetch k)) \<longrightarrow>
      fst (configureImportedAssistant fetch aid) = False \<and>
      sleeps (snd (configureImportedAssistant fetch aid)) = [500, 1000, 2000, 4000] \<and>
      posts (snd (configureImportedAssistant fetch aid)) = [1, 2, 3, 4, 5]) \<and>
   (\<forall>n. 1 \<le> n \<and> n \<le> 5 \<and> (\<forall>k. 1 \<le> k \<and> k < n \<longrightarrow> retryable (fetch k)) \<and>
        \<not> retryable (fetch n) \<longrightarrow>
      fst (configureImportedAssistant fetch aid) = succeeded (fetch n) \<and>
      sleeps (snd (configureImportedAssistant fetch aid)) = take (n - 1) [500, 1000, 2000, 4000] \<and>
      posts (snd (configureImportedAssistant fetch aid)) = [1..<Suc n])"
proof (intro conjI impI allI)
  assume a: "\<forall>k. 1 \<le> k \<and> k \<le> 5 \<longrightarrow> retryable (fetch k)"
  have *: "fst (configure_loop fetch aid 1) = False \<and>
         sleeps (snd (configure_loop fetch aid 1)) = map backoff [1..<MAX_RETRIES] \<and>
         posts (snd (configure_loop fetch aid 1)) = [1..<Suc MAX_RETRIES]"
    using a by (intro loop_all) (auto simp: MAX_RETRIES_def)
  show "fst (configureImportedAssistant fetch aid) = False"
    using * by (simp add: configure_parts)
  show "sleeps (snd (configureImportedAssistant fetch aid)) = [500, 1000, 2000, 4000]"
    using * backoffs[of 5] by (simp add: configure_parts MAX_RETRIES_def)
  show "posts (snd (configureImportedAssistant fetch aid)) = [1, 2, 3, 4, 5]"
    using * by (simp add: configure_parts MAX_RETRIES_def upt_conv_Cons)
next
  fix n
  assume a: "1 \<le> n \<and> n \<le> 5 \<and> (\<forall>k. 1 \<le> k \<and> k < n \<longrightarrow> retryable (fetch k)) \<and>
             \<not> retryable (fetch n)"
  have *: "fst (configure_loop fetch aid 1) = succeeded (fetch n) \<and>
         sleeps (snd (configure_loop fetch aid 1)) = map backoff [1..<n] \<and>
         posts (snd (configure_loop fetch aid 1)) = [1..<Suc n]"
    using a by (intro loop_upto) (auto simp: MAX_RETRIES_def)
  show "fst (configureImportedAssistant fetch aid) = succeeded (fetch n)"
    using * by (simp add: configure_parts)
  show "sleeps (snd (configureImportedAssistant fetch aid)) = take (n - 1) [500, 1000, 2000, 4000]"
    using * a backoffs[of n] by (simp add: configure_parts)
  show "posts (snd (configureImportedAssistant fetch aid)) = [1..<Suc n]"
    using * by (simp add: configure_parts)
qed

theorem configure_retry_schedule_witness:
  "(fst (configureImportedAssistant always_404 ''tx-1'') = False \<and>
    sleeps (snd (configureImportedAssistant always_404 ''tx-1'')) = [500, 1000, 2000, 4000] \<and>
    posts (snd (configureImportedAssistant always_404 ''tx-1'')) = [1, 2, 3, 4, 5]) \<and>
   (fst (configureImportedAssistant two_404_then_500 ''tx-1'') = False \<and>
    sleeps (snd (configureImportedAssistant two_404_then_500 ''tx-1'')) = [500, 1000] \<and>
    posts (snd (configureImportedAssistant two_404_then_500 ''tx-1'')) = [1, 2, 3])"
proof -
  have a: "\<forall>k. 1 \<le> k \<and> k \<le> 5 \<longrightarrow> retryable (always_404 k)"
    by (simp add: retryable_def always_404_def ok_def)
  have b: "1 \<le> (3::nat) \<and> (3::nat) \<le> 5 \<and>
           (\<forall>k. 1 \<le> k \<and> k < 3 \<longrightarrow> retryable (two_404_then_500 k)) \<and>
           \<not> retryable (two_404_then_500 3)"
    by (simp add: retryable_def two_404_then_500_def ok_def)
  have c: "succeeded (two_404_then_500 3) = False"
    by (simp add: succeeded_def two_404_then_500_def ok_def)
  have u: "[1..<Suc 3] = [1, 2, 3]" by (simp add: upt_conv_Cons)
  from configure_retry_schedule[of always_404 "''tx-1''"] a
  have 1: "fst (configureImportedAssistant always_404 ''tx-1'') = False \<and>
    sleeps (snd (configureImportedAssistant always_404 ''tx-1'')) = [500, 1000, 2000, 4000] \<and>
    posts (snd (configureImportedAssistant always_404 ''tx-1'')) = [1, 2, 3, 4, 5]" by blast
  from configure_retry_schedule[of two_404_then_500 "''tx-1''"] b
  have "fst (configureImportedAssistant two_404_then_500 ''tx-1'') = succeeded (two_404_then_500 3) \<and>
      sleeps (snd (configureImportedAssistant two_404_then_500 ''tx-1'')) =
        take (3 - 1) [500, 1000, 2000, 4000] \<and>
      posts (snd (configureImportedAssistant two_404_then_500 ''tx-1'')) = [1..<Suc 3]" by blast
  with c u have 2: "fst (configureImportedAssistant two_404_then_500 ''tx-1'') = False \<and>
    sleeps (snd (configureImportedAssistant two_404_then_500 ''tx-1'')) = [500, 1000] \<and>
    posts (snd (configureImportedAssistant two_404_then_500 ''tx-1'')) = [1, 2, 3]" by simp
  from 1 2 show ?thesis by blast
qed

text \<open>
  Claim C8 as stated fails: the first request ends in a network error, which is not a 404
  response, and the code pauses 500 ms and sends a second request, which succeeds.
\<close>

theorem configure_retries_network_error:
  "network_error_then_ok 1 = Threw ''ECONNRESET'' \<and>
   fst (configureImportedAssistant network_error_then_ok ''tx-1'') = True \<and>
   sleeps (snd (configureImportedAssistant network_error_then_ok ''tx-1'')) = [500] \<and>
   posts (snd (configureImportedAssistant network_error_then_ok ''tx-1'')) = [1, 2]"
  by code_simp

text \<open>
  Claim C9. When the import response is empty, or the \<^verbatim>\<open>import_id\<close> of the resource
  it returns differs from the requested assistant id, the import fails: the call ends in
  an error, so no identifier is returned, and no configuration request is sent for any
  resource. When the earlier steps succeeded the error is the one of the empty result or
  of the mismatch.
\<close>

theorem import_mismatch_fails:
  assumes "import_reply env = Reply st as"
    and "as = [] \<or> importId_of (hd as) \<noteq> requested"
  shows "(\<exists>e. fst (importAssistantsFromProvider env provider requested) = Inl e) \<and>
         posts (snd (importAssistantsFromProvider env provider requested)) = [] \<and>
         (provider \<in> set SUPPORTED_PROVIDERS \<and>
          (\<exists>st1 ident. secret_reply env = Reply st1 ident \<and> ok st1) \<and> ok st \<longrightarrow>
            fst (importAssistantsFromProvider env provider requested) =
              Inl (if as = [] then NoAssistantImported requested
                   else ImportMismatch requested (importId_of (hd as))))"
  using assms
  by (auto simp: importAssistantsFromProvider_def rethrow_def createIntegrationSecret_def
      after_import_def posts_append Let_def split: reply.splits prod.splits sum.splits)

theorem import_mismatch_fails_witness:
  "fst (importAssistantsFromProvider env_mismatch ''vapi'' (Some ''ext-1'')) =
     Inl (ImportMismatch (Some ''ext-1'') (Some ''ext-other'')) \<and>
   posts (snd (importAssistantsFromProvider env_mismatch ''vapi'' (Some ''ext-1''))) = []"
proof -
  have r: "import_reply env_mismatch = Reply 200 [other_assistant]"
    by (simp add: env_mismatch_def)
  have m: "[other_assistant] = [] \<or> importId_of (hd [other_assistant]) \<noteq> Some ''ext-1''"
    by (simp add: importId_of_def other_assistant_def)
  have p: "''vapi'' \<in> set SUPPORTED_PROVIDERS \<and>
           (\<exists>st1 ident. secret_reply env_mismatch = Reply st1 ident \<and> ok st1) \<and> ok 200"
    by (simp add: SUPPORTED_PROVIDERS_def env_mismatch_def ok_def)
  have i: "importId_of (hd [other_assistant]) = Some ''ext-other''"
    by (simp add: importId_of_def other_assistant_def)
  from import_mismatch_fails[OF r m, of "''vapi''"] p i show ?thesis
    by simp
qed

text \<open>
  Claim C10. After a successful import whose \<^verbatim>\<open>import_id\<close> matches, the call returns
  the id of the imported assistant whatever the configuration requests answer.
  Configuration is skipped (no request is sent) exactly when \<^verbatim>\<open>imported_at\<close> is
  present, non-empty, parses to a time, and that time is strictly more than 60000 ms
  before now; an assistant without \<^verbatim>\<open>imported_at\<close>, or imported at most 60000 ms ago,
  is configured.
\<close>

theorem fresh_import_is_configured:
  assumes "provider \<in> set SUPPORTED_PROVIDERS"
    and "secret_reply env = Reply st1 ident" and "ok st1"
    and "import_reply env = Reply st2 (a # as)" and "ok st2"
    and "importId_of a = requested"
  shows "fst (importAssistantsFromProvider env provider requested) =
           Inr \<lparr>assistants = [(a_id a, a_name a, requested)], assistantId = a_id a\<rparr> \<and>
         (posts (snd (importAssistantsFromProvider env provider requested)) = [] \<longleftrightarrow>
            (\<exists>s t. importedAt_of a = Some s \<and> s \<noteq> [] \<and> date_parse env s = Some t \<and>
                   date_now env - t > 60000))"
proof -
  have r: "importAssistantsFromProvider env provider requested =
        (let (r, eff2) = after_import env requested (a # as)
         in (r, (Wrote LogImporting #
                   [Wrote LogCreatingSecret, PostSecret, Wrote LogSecretCreated]
                   @ [Wrote LogImportingAssistant, PostImport ident requested]) @ eff2))"
    using assms
    by (auto simp: importAssistantsFromProvider_def rethrow_def createIntegrationSecret_def
        after_import_def Let_def split: prod.splits sum.splits)
  show ?thesis
    unfolding r isReused_iff[symmetric]
    using assms(6) posts_configure_nonempty[of "configure_reply env" "a_id a"]
    by (auto simp: after_import_def Let_def posts_append split: prod.splits)
qed

theorem fresh_import_is_configured_witness:
  "fst (importAssistantsFromProvider env_recent ''vapi'' (Some ''ext-1'')) =
     Inr \<lparr>assistants = [(''tx-1'', ''Support'', Some ''ext-1'')], assistantId = ''tx-1''\<rparr> \<and>
   posts (snd (importAssistantsFromProvider env_recent ''vapi'' (Some ''ext-1''))) \<noteq> []"
proof -
  have 1: "''vapi'' \<in> set SUPPORTED_PROVIDERS" by (simp add: SUPPORTED_PROVIDERS_def)
  have 2: "secret_reply env_recent = Reply 201 ''vapi_import_1''" by (simp add: env_recent_def)
  have 3: "ok 201" "ok 200" by (simp_all add: ok_def)
  have 4: "import_reply env_recent = Reply 200 (recent_assistant # [])"
    by (simp add: env_recent_def)
  have 5: "importId_of recent_assistant = Some ''ext-1''"
    by (simp add: importId_of_def recent_assistant_def)
  have 6: "\<not> (\<exists>s t. importedAt_of recent_assistant = Some s \<and> s \<noteq> [] \<and>
                date_parse env_recent s = Some t \<and> date_now env_recent - t > 60000)"
    by (simp add: importedAt_of_def recent_assistant_def env_recent_def parse_fixed_def)
  from fresh_import_is_configured[OF 1 2 3(1) 4 3(2) 5] 6 show ?thesis
    by (simp add: recent_assistant_def)
qed

section \<open>Lemmas on the event broker, the step executor and the run controller\<close>

lemma clearTimeout_fields [simp]:
  "promises (clearTimeout i w) = promises w" "pendingPromises (clearTimeout i w) = pendingPromises w"
  "inbox (clearTimeout i w) = inbox w" "clock (clearTimeout i w) = clock w"
  "trace (clearTimeout i w) = trace w" "debug (clearTimeout i w) = debug w"
  "page (clearTimeout i w) = page w" "browser (clearTimeout i w) = browser w"
  "nextId (clearTimeout i w) = nextId w" "reportGenerator (clearTimeout i w) = reportGenerator w"
  "timers (clearTimeout i w) = filter (\<lambda>t. tid t \<noteq> i) (timers w)"
  by (simp_all add: clearTimeout_def)

lemma promises_settle:
  "promises (settle k out w) j =
     (if j = k then (case promises w k of None \<Rightarrow> Some out | Some old \<Rightarrow> Some old) else promises w j)"
  by (simp add: settle_def split: option.splits)

text \<open>One pending list: the inner loop of the teardown.\<close>

lemma reject_entries_promises:
  "promises (reject_entries mk (T, ps) w) k =
     (case promises w k of
        Some out \<Rightarrow> Some out
      | None \<Rightarrow> if k \<in> (\<lambda>p. promise_of (reject p)) ` set ps then Some (Rejected (mk T)) else None)"
proof (induction ps arbitrary: w)
  case Nil
  then show ?case by (simp add: reject_entries_def split: option.splits)
next
  case (Cons p ps)
  have step: "reject_entries mk (T, p # ps) w =
        reject_entries mk (T, ps) (call_reject (reject p) (mk T) (clearTimeout (timeoutId p) w))"
    by (simp add: reject_entries_def)
  show ?case
    unfolding step Cons.IH
    by (cases "reject p") (auto simp: promises_settle promise_of_def split: option.splits)
qed

lemma session_of_fields:
  "pendingPromises w = pendingPromises (session_of w)"
  "inbox w = inbox (session_of w)" "clock w = clock (session_of w)"
  "trace w = trace (session_of w)" "debug w = debug (session_of w)"
  "page w = page (session_of w)" "browser w = browser (session_of w)"
  "nextId w = nextId (session_of w)"
  "reportGenerator w = reportGenerator (session_of w)"
  "recordingStream w = recordingStream (session_of w)"
  "audioUrl w = audioUrl (session_of w)"
  "recording w = recording (session_of w)"
  by (simp_all add: session_of_def)

lemma session_of_settle [simp]: "session_of (settle k out w) = session_of w"
  by (simp add: session_of_def settle_def)

lemma session_of_clearTimeout [simp]: "session_of (clearTimeout i w) = session_of w"
  by (simp add: session_of_def clearTimeout_def)

lemma session_of_reject_entries [simp]: "session_of (reject_entries mk e w) = session_of w"
proof -
  have "session_of (fold (\<lambda>p w'. call_reject (reject p) (mk T) (clearTimeout (timeoutId p) w')) ps w)
          = session_of w" for T and ps :: "pending list"
    by (induction ps arbitrary: w) (simp_all add: call_reject_settle)
  then show ?thesis by (simp add: reject_entries_def)
qed

lemma reject_entries_keeps [simp]:
  "pendingPromises (reject_entries mk e w) = pendingPromises w"
  "inbox (reject_entries mk e w) = inbox w" "clock (reject_entries mk e w) = clock w"
  "trace (reject_entries mk e w) = trace w" "debug (reject_entries mk e w) = debug w"
  "page (reject_entries mk e w) = page w" "browser (reject_entries mk e w) = browser w"
  "nextId (reject_entries mk e w) = nextId w"
  "reportGenerator (reject_entries mk e w) = reportGenerator w"
  "recordingStream (reject_entries mk e w) = recordingStream w"
  "audioUrl (reject_entries mk e w) = audioUrl w"
  "recording (reject_entries mk e w) = recording w"
  by (subst session_of_fields, subst (2) session_of_fields, simp)+

lemma reject_entries_timers:
  "timers (reject_entries mk e w) = filter (\<lambda>t. tid t \<notin> timeoutId ` set (snd e)) (timers w)"
proof -
  have "timers (fold (\<lambda>p w'. call_reject (reject p) (mk T) (clearTimeout (timeoutId p) w')) ps w)
          = filter (\<lambda>t. tid t \<notin> timeoutId ` set ps) (timers w)" for T and ps :: "pending list"
    by (induction ps arbitrary: w) (auto simp: call_reject_settle intro: filter_cong)
  then show ?thesis by (simp add: reject_entries_def)
qed

lemma fold_reject_keeps_settled:
  "promises w k = Some out \<Longrightarrow> promises (fold (reject_entries mk) es w) k = Some out"
proof (induction es arbitrary: w)
  case Nil
  then show ?case by simp
next
  case (Cons e es)
  have "promises (reject_entries mk e w) k = Some out"
    using Cons.prems reject_entries_promises[of mk "fst e" "snd e" w k] by simp
  then show ?case using Cons.IH by simp
qed

lemma fold_reject_rejects:
  "promises w k = None \<Longrightarrow> \<exists>e \<in> set es. k \<in> ids (snd e) \<Longrightarrow>
   \<exists>T \<in> fst ` set es. promises (fold (reject_entries mk) es w) k = Some (Rejected (mk T))"
proof (induction es arbitrary: w)
  case Nil
  then show ?case by simp
next
  case (Cons e es)
  show ?case
  proof (cases "k \<in> ids (snd e)")
    case True
    then have "promises (reject_entries mk e w) k = Some (Rejected (mk (fst e)))"
      using Cons.prems(1) reject_entries_promises[of mk "fst e" "snd e" w k] by (simp add: ids_def)
    then have "promises (fold (reject_entries mk) (e # es) w) k = Some (Rejected (mk (fst e)))"
      by (simp add: fold_reject_keeps_settled)
    then show ?thesis by auto
  next
    case False
    then have n: "promises (reject_entries mk e w) k = None"
      using Cons.prems(1) reject_entries_promises[of mk "fst e" "snd e" w k] by (simp add: ids_def)
    from False Cons.prems(2) have "\<exists>e \<in> set es. k \<in> ids (snd e)" by auto
    from Cons.IH[OF n this] show ?thesis by auto
  qed
qed

lemma fold_reject_session [simp]: "session_of (fold (reject_entries mk) es w) = session_of w"
  by (induction es arbitrary: w) simp_all

lemma fold_reject_timers:
  "timers (fold (reject_entries mk) es w) =
     filter (\<lambda>t. tid t \<notin> timeoutId ` (\<Union>e \<in> set es. set (snd e))) (timers w)"
  by (induction es arbitrary: w) (auto simp: reject_entries_timers intro: filter_cong)

lemma reject_all_pending [simp]: "pendingPromises (reject_all mk w) = []"
  by (simp add: reject_all_def)

lemma reject_all_promises_settled:
  "promises w k = Some out \<Longrightarrow> promises (reject_all mk w) k = Some out"
  by (simp add: reject_all_def fold_reject_keeps_settled)

lemma outstanding_iff:
  "k \<in> set (outstanding w) \<longleftrightarrow> promises w k = None \<and> (\<exists>e \<in> set (pendingPromises w). k \<in> ids (snd e))"
  by (auto simp: outstanding_def ids_def)

lemma reject_all_outstanding:
  "k \<in> set (outstanding w) \<Longrightarrow>
   \<exists>T \<in> fst ` set (pendingPromises w). promises (reject_all mk w) k = Some (Rejected (mk T))"
  using fold_reject_rejects[of w k "pendingPromises w" mk]
  by (simp add: outstanding_iff reject_all_def)

lemma reject_all_idle: "pendingPromises w = [] \<Longrightarrow> reject_all mk w = w"
  by (simp add: reject_all_def)

lemma reject_all_idem: "reject_all mk (reject_all mk w) = reject_all mk w"
  by (simp add: reject_all_idle)

lemma reject_all_timers:
  "timers (reject_all mk w) =
     filter (\<lambda>t. tid t \<notin> timeoutId ` (\<Union>e \<in> set (pendingPromises w). set (snd e))) (timers w)"
  by (simp add: reject_all_def fold_reject_timers)

lemma publish_idle:
  "pendingPromises w = [] \<Longrightarrow>
   publishEvent T d w = say (Published T (case d of None \<Rightarrow> None | Some p \<Rightarrow> elementId p)) w"
  by (simp add: publishEvent_def say_def Let_def)

lemma say_fields [simp]:
  "promises (say c w) = promises w" "pendingPromises (say c w) = pendingPromises w"
  "timers (say c w) = timers w" "inbox (say c w) = inbox w" "clock (say c w) = clock w"
  "debug (say c w) = debug w" "page (say c w) = page w" "browser (say c w) = browser w"
  "nextId (say c w) = nextId w" "reportGenerator (say c w) = reportGenerator w"
  "recordingStream (say c w) = recordingStream w" "audioUrl (say c w) = audioUrl w"
  "recording (say c w) = recording w" "trace (say c w) = trace w @ [Console c]"
  by (simp_all add: say_def)

lemma emit_fields [simp]:
  "promises (emit c w) = promises w" "pendingPromises (emit c w) = pendingPromises w"
  "timers (emit c w) = timers w" "inbox (emit c w) = inbox w" "clock (emit c w) = clock w"
  "debug (emit c w) = debug w" "page (emit c w) = page w" "browser (emit c w) = browser w"
  "nextId (emit c w) = nextId w" "reportGenerator (emit c w) = reportGenerator w"
  "recordingStream (emit c w) = recordingStream w" "audioUrl (emit c w) = audioUrl w"
  "recording (emit c w) = recording w" "trace (emit c w) = trace w @ [c]"
  by (simp_all add: emit_def)

text \<open>The state in which \<^verbatim>\<open>close\<close> leaves a tester that has a browser.\<close>

lemma close_state:
  assumes "browser w"
  shows "\<exists>w'. snd (close env w) = w' \<and> promises w' = promises (reject_all BrowserClosed (stopRecording w)) \<and>
      pendingPromises w' = [] \<and> timers w' = timers (reject_all BrowserClosed (stopRecording w))"
  using assms
  by (auto simp: close_def bnd_def effect_only_def auto_call_def split: option.splits)

lemma stopRecording_fields [simp]:
  "promises (stopRecording w) = promises w" "pendingPromises (stopRecording w) = pendingPromises w"
  "timers (stopRecording w) = timers w" "browser (stopRecording w) = browser w"
  by (simp_all add: stopRecording_def)

lemma outstanding_stopRecording [simp]: "outstanding (stopRecording w) = outstanding w"
  by (simp add: outstanding_def)


lemma dispatch_unknown:
  "s_action st \<notin> set known_actions \<Longrightarrow>
   dispatch env st w = (Ok Undefined, say (UnknownAction (s_action st)) w)"
  by (simp add: dispatch_def known_actions_def Let_def bnd_def effect_only_def ret_def)

lemma record_metrics_Undefined:
  "record_metrics st i n Undefined w =
     (if reportGenerator w \<and> (case s_metrics st of None \<Rightarrow> False | Some ms \<Rightarrow> ''elapsed_time'' \<in> set ms)
      then emit (RecordStepMetric i (s_action st) ''elapsed_time'' (int n)) w else w)"
  by (simp add: record_metrics_def Let_def split: option.splits)

lemma executeStep_Ok:
  "page w \<Longrightarrow> dispatch env st w = (Ok r, w1) \<Longrightarrow>
   executeStep env st i w =
     (Ok (), record_metrics st i (clock w1 - clock w) r (say (ElapsedTime (clock w1 - clock w)) w1))"
  by (simp add: executeStep_def Let_def try_catch_def bnd_def effect_only_def)




lemma fold_reject_fields [simp]:
  "trace (fold (reject_entries mk) es w) = trace w"
  "reportGenerator (fold (reject_entries mk) es w) = reportGenerator w"
  "browser (fold (reject_entries mk) es w) = browser w"
  "page (fold (reject_entries mk) es w) = page w"
  "clock (fold (reject_entries mk) es w) = clock w"
  "inbox (fold (reject_entries mk) es w) = inbox w"
  "nextId (fold (reject_entries mk) es w) = nextId w"
  "debug (fold (reject_entries mk) es w) = debug w"
  by (subst session_of_fields, subst (2) session_of_fields, simp)+

lemma reject_all_trace [simp]:
  "trace (reject_all mk w) = trace w" "reportGenerator (reject_all mk w) = reportGenerator w"
  "browser (reject_all mk w) = browser w" "page (reject_all mk w) = page w"
  by (simp_all add: reject_all_def)




lemmas run_defs = prologue_def launch_def injectJavaScriptFiles_def startRecording_def
  auto_call_def bnd_def effect_only_def ret_def throw_def try_catch_def sleep_def awaiting_def
  tick_def fire_def deliver_def settle_def falsy_def str_def


lemma await_settled: "promises w k = Some out \<Longrightarrow> await env k w = (Some out, w)"
  by (subst await.simps) simp

lemma await_step: "promises w k = None \<Longrightarrow> tick env w = Some w' \<Longrightarrow> await env k w = await env k w'"
  by (subst await.simps) simp

lemma sole_fire:
  assumes "sole k T n D w" and "inbox w = [] \<or> D \<le> fst (hd (inbox w))"
  shows "fst (await env k w) = Some (Rejected (Timeout T n (timeout_detail env w)))"
proof -
  let ?t = "\<lparr>tid = k, kind = WaitTimeout T n, promise = k, deadline = D\<rparr>"
  have t: "tick env w = Some (fire env ?t w)"
    using assms by (cases "inbox w") (auto simp: tick_def sole_def)
  have p: "promises (fire env ?t w) k = Some (Rejected (Timeout T n (timeout_detail env w)))"
    using assms(1)
    by (simp add: fire_def onTimeout_def sole_def settle_def collectDiagnostics_def
        timeout_detail_def Let_def)
  from assms(1) have "promises w k = None" by (simp add: sole_def)
  from await_step[OF this t] await_settled[OF p] show ?thesis by simp
qed


lemma sole_deliver_other:
  assumes "sole k T n D w" and "inbox w = e # es" and "fst e < D" and "fst (snd e) \<noteq> T"
  shows "await env k w = await env k (deliver e w)"
    and "sole k T n D (deliver e w)" and "inbox (deliver e w) = es"
    and "debug (deliver e w) = debug w" and "page (deliver e w) = page w"
proof -
  have t: "tick env w = Some (deliver e w)"
    using assms by (auto simp: tick_def sole_def)
  from assms(1) have "promises w k = None" by (simp add: sole_def)
  from await_step[OF this t] show "await env k w = await env k (deliver e w)" .
  show "sole k T n D (deliver e w)" "inbox (deliver e w) = es"
    "debug (deliver e w) = debug w" "page (deliver e w) = page w"
    using assms by (simp_all add: deliver_def publishEvent_def sole_def say_def Let_def)
qed





lemma calls_simps [simp]:
  "calls [] = []" "calls (xs @ ys) = calls xs @ calls ys"
  "calls (Console c # es) = calls es"
  "calls (Auto a # es) = Auto a # calls es"
  "calls (Registered T n # es) = Registered T n # calls es"
  "calls (SaveWav s # es) = SaveWav s # calls es"
  "calls (Transcribe s # es) = Transcribe s # calls es"
  "calls (Evaluate s t # es) = Evaluate s t # calls es"
  by (simp_all add: calls_def)

lemma onTimeout_trace [simp]: "trace (onTimeout env k T n w) = trace w"
  by (simp add: onTimeout_def Let_def call_reject_settle split: option.splits)

lemma fire_trace [simp]: "trace (fire env t w) = trace w"
  by (simp add: fire_def Let_def split: timer_kind.splits)

lemma publishEvent_trace:
  "trace (publishEvent T d w) =
     trace w @ [Console (Published T (case d of None \<Rightarrow> None | Some p \<Rightarrow> elementId p))]"
  by (simp add: publishEvent_def Let_def call_resolve_settle split: option.splits list.splits)

lemma deliver_trace: "calls (trace (deliver e w)) = calls (trace w)"
  by (simp add: deliver_def publishEvent_trace)

lemma tick_frame:
  assumes "tick env w = Some w'"
  shows "calls (trace w') = calls (trace w)" and "set (inbox w') \<subseteq> set (inbox w)"
proof -
  from assms consider t where "w' = fire env t w" | e es where "inbox w = e # es" "w' = deliver e w"
    by (auto simp: tick_def split: option.splits list.splits if_splits)
  then have "calls (trace w') = calls (trace w) \<and> set (inbox w') \<subseteq> set (inbox w)"
  proof cases
    case 1
    then show ?thesis by (simp add: fire_decreases(2))
  next
    case 2
    have "calls (trace w') = calls (trace w)" by (simp add: 2(2) deliver_trace)
    moreover have "inbox w' = es" by (simp add: 2 deliver_def publishEvent_timers(2))
    ultimately show ?thesis using 2(1) by auto
  qed
  then show "calls (trace w') = calls (trace w)" and "set (inbox w') \<subseteq> set (inbox w)" by simp_all
qed

lemma await_stuck: "promises w k = None \<Longrightarrow> tick env w = None \<Longrightarrow> await env k w = (None, w)"
  by (subst await.simps) simp


text \<open>An event that resolves an awaited promise was reported by the page.\<close>

lemma fire_no_event:
  "promises w k = None \<Longrightarrow> promises (fire env t w) k \<noteq> Some (Resolved (Some ev))"
  by (auto simp: fire_def onTimeout_def Let_def call_reject_settle promises_settle
      split: timer_kind.splits option.splits if_splits)

lemma deliver_event:
  "promises w k = None \<Longrightarrow> promises (deliver e w) k = Some (Resolved (Some ev)) \<Longrightarrow>
   eventType ev = fst (snd e) \<and> data ev = snd (snd e)"
  by (auto simp: deliver_def publishEvent_def Let_def call_resolve_settle promises_settle
      split: option.splits list.splits if_splits resolver.splits)

lemma await_event_from_inbox:
  "promises w k = None \<Longrightarrow> fst (await env k w) = Some (Resolved (Some ev)) \<Longrightarrow>
   \<exists>e \<in> set (inbox w). eventType ev = fst (snd e) \<and> data ev = snd (snd e)"
proof (induction env k w rule: await.induct)
  case (1 env k w)
  show ?case
  proof (cases "tick env w")
    case None
    then show ?thesis using "1.prems" by (simp add: await_stuck)
  next
    case (Some w')
    note aw = await_step[OF "1.prems"(1) Some]
    show ?thesis
    proof (cases "promises w' k")
      case n: None
      from "1.IH"[OF "1.prems"(1) Some n] "1.prems"(2) aw tick_frame(2)[OF Some]
      show ?thesis by auto
    next
      case s: (Some out)
      with aw "1.prems"(2) have out: "promises w' k = Some (Resolved (Some ev))"
        by (simp add: await_settled)
      from Some consider t where "w' = fire env t w"
        | e es where "inbox w = e # es" "w' = deliver e w"
        by (auto simp: tick_def split: option.splits list.splits if_splits)
      then show ?thesis
      proof cases
        case 1
        then show ?thesis using fire_no_event[OF "1.prems"(1), of env t ev] out by simp
      next
        case 2
        then show ?thesis using deliver_event[OF "1.prems"(1), of e ev] out by auto
      qed
    qed
  qed
qed

lemma bnd_Ok:
  assumes "bnd m f w = (Ok r, w')"
  obtains x w1 where "m w = (Ok x, w1)" and "f x w1 = (Ok r, w')"
  using assms by (auto simp: bnd_def split: prod.splits result.splits)

lemma try_rethrow_Ok:
  assumes "try_catch m (\<lambda>e. bnd (effect_only (g e)) (\<lambda>u. throw e)) w = (Ok r, w')"
  shows "m w = (Ok r, w')"
  using assms
  by (auto simp: try_catch_def bnd_def effect_only_def throw_def split: prod.splits result.splits)








lemmas broker_defs = waitForAudioEvent_def publishEvent_def onTimeout_def clearTimeout_def
  collectDiagnostics_def say_def emit_def wait_event_def DEFAULT_TIMEOUT_def


lemma three_waiters_eval:
  "three_waiters = (launched False [])\<lparr>
      pendingPromises :=
        [(''audiostart'', [\<lparr>resolve = WrappedResolve 0, reject = Reject 0, timeoutId = 0\<rparr>,
                           \<lparr>resolve = WrappedResolve 2, reject = Reject 2, timeoutId = 2\<rparr>]),
         (''audiostop'', [\<lparr>resolve = WrappedResolve 1, reject = Reject 1, timeoutId = 1\<rparr>])],
      timers :=
        [\<lparr>tid = 0, kind = WaitTimeout ''audiostart'' 30000, promise = 0, deadline = 30000\<rparr>,
         \<lparr>tid = 1, kind = WaitTimeout ''audiostop'' 30000, promise = 1, deadline = 30000\<rparr>,
         \<lparr>tid = 2, kind = WaitTimeout ''audiostart'' 30000, promise = 2, deadline = 30000\<rparr>],
      nextId := 3,
      trace := [Registered ''audiostart'' 30000, Registered ''audiostop'' 30000,
                Registered ''audiostart'' 30000]\<rparr>"
  by (simp add: three_waiters_def broker_defs launched_def new_tester_def Let_def)

lemma short_wait_done_eval:
  "short_wait_done = (launched False [(5000, ''audiostart'', None)])\<lparr>
      nextId := 1, clock := 10, trace := [Registered ''audiostart'' 10],
      promises := [0 \<mapsto> Rejected (Timeout ''audiostart'' 10 NoDetail)],
      pendingPromises :=
        [(''audiostart'', [\<lparr>resolve = WrappedResolve 0, reject = Reject 0, timeoutId = 0\<rparr>])]\<rparr>"
  by (simp add: short_wait_done_def broker_defs run_defs await.simps launched_def new_tester_def
      good_page_def Let_def)

lemma findIndex_wrapped:
  "\<forall>p \<in> set ps. \<exists>j. resolve p = WrappedResolve j \<Longrightarrow>
   findIndex (\<lambda>p. resolve p = Resolve k) ps = None"
  by (induction ps) auto

lemma all_wrapped_update:
  assumes "all_wrapped al" and "\<forall>p \<in> set v. \<exists>j. resolve p = WrappedResolve j"
  shows "all_wrapped (AList.update k v al)"
proof -
  have "set (AList.update k v al) \<subseteq> insert (k, v) (set al)"
    by (induction al) auto
  with assms show ?thesis unfolding all_wrapped_def by fastforce
qed

lemma all_wrapped_lookup:
  assumes "all_wrapped al"
  shows "\<forall>p \<in> set (case map_of al k of None \<Rightarrow> [] | Some ps \<Rightarrow> ps). \<exists>j. resolve p = WrappedResolve j"
proof (cases "map_of al k")
  case None
  then show ?thesis by simp
next
  case (Some ps)
  then have "(k, ps) \<in> set al" by (rule map_of_SomeD)
  with assms Some show ?thesis unfolding all_wrapped_def by fastforce
qed

lemma waitForAudioEvent_wrapped:
  assumes "all_wrapped (pendingPromises w)"
  shows "all_wrapped (pendingPromises (snd (waitForAudioEvent T tm w)))"
proof -
  define al where "al = (if map_of (pendingPromises w) T = None
                         then AList.update T [] (pendingPromises w) else pendingPromises w)"
  have al: "all_wrapped al"
    unfolding al_def using assms by (simp add: all_wrapped_update)
  have "pendingPromises (snd (waitForAudioEvent T tm w)) =
          AList.update T ((case map_of al T of None \<Rightarrow> [] | Some ps \<Rightarrow> ps) @
            [\<lparr>resolve = WrappedResolve (nextId w), reject = Reject (nextId w),
              timeoutId = nextId w\<rparr>]) al"
    by (simp add: waitForAudioEvent_def Let_def al_def)
  then show ?thesis
    using all_wrapped_update[OF al] all_wrapped_lookup[OF al, of T] by simp
qed

lemma onTimeout_keeps_queue:
  assumes "all_wrapped (pendingPromises w)"
  shows "pendingPromises (onTimeout env k T n w) = pendingPromises w"
proof -
  have "findIndex (\<lambda>p. resolve p = Resolve k)
          (case map_of (pendingPromises w) T of None \<Rightarrow> [] | Some ps \<Rightarrow> ps) = None"
    using all_wrapped_lookup[OF assms, of T] by (rule findIndex_wrapped)
  then show ?thesis by (simp add: onTimeout_def Let_def call_reject_settle)
qed

text \<open>
  What a publish does in general: with no entry for the type the event is only logged;
  otherwise the first entry of that type is taken off its list and its promise is the only
  one that can change.
\<close>

lemma publish_without_entry:
  assumes "map_of (pendingPromises w) T = None \<or> map_of (pendingPromises w) T = Some []"
  shows "publishEvent T d w =
           say (Published T (case d of None \<Rightarrow> None | Some p \<Rightarrow> elementId p)) w"
  using assms by (auto simp: publishEvent_def say_def Let_def)

lemma publish_head:
  assumes "map_of (pendingPromises w) T = Some (p # rest)"
  shows "promises (publishEvent T d w) =
           promises (call_resolve (resolve p)
                       (Some \<lparr>eventType = T, data = d, timestamp = clock w\<rparr>) w) \<and>
         map_of (pendingPromises (publishEvent T d w)) T = (if rest = [] then None else Some rest)"
  using assms
  by (simp add: publishEvent_def say_def clearTimeout_def Let_def call_resolve_settle settle_def
      AList.update_conv' AList.delete_conv')

lemma publish_settles_at_most_one:
  "\<exists>k. \<forall>j. j \<noteq> k \<longrightarrow> promises (publishEvent T d w) j = promises w j"
proof (cases "map_of (pendingPromises w) T")
  case None
  then show ?thesis by (simp add: publish_without_entry)
next
  case (Some ps)
  show ?thesis
  proof (cases ps)
    case Nil
    with Some show ?thesis by (simp add: publish_without_entry)
  next
    case (Cons p rest)
    with Some have "map_of (pendingPromises w) T = Some (p # rest)" by simp
    from publish_head[OF this, of d] show ?thesis
      by (cases "resolve p") (auto simp: promises_settle)
  qed
qed

lemma served_deliver:
  assumes "served k (deliver e w) w'" and "inbox w = e # es" and "inbox (deliver e w) = es"
    and "nextId (deliver e w) = nextId w" and "page (deliver e w) = page w"
    and "\<forall>j. j \<noteq> k \<longrightarrow> promises (deliver e w) j = promises w j"
  shows "served k w w'"
proof -
  from assms(1) obtain m where "inbox w' = drop m (inbox (deliver e w))"
    by (auto simp: served_def)
  then have "inbox w' = drop (Suc m) (inbox w)" using assms(2,3) by simp
  then show ?thesis using assms unfolding served_def by metis
qed

lemma await_sole_served:
  assumes "sole k T n D w" and "await env k w = (Some (Resolved v), w')"
  shows "served k w w'"
  using assms
proof (induction "inbox w" arbitrary: w)
  case Nil
  then show ?case using sole_fire[of k T n D w env] by simp
next
  case (Cons e es)
  from Cons.hyps(2) have inb: "inbox w = e # es" by simp
  from Cons.prems(1) have pn: "promises w k = None" by (simp add: sole_def)
  show ?case
  proof (cases "fst e < D")
    case False
    then show ?thesis using sole_fire[OF Cons.prems(1), of env] inb Cons.prems(2) by simp
  next
    case True
    then have t: "tick env w = Some (deliver e w)"
      using Cons.prems(1) inb by (auto simp: tick_def sole_def)
    show ?thesis
    proof (cases "fst (snd e) = T")
      case match: True
      have st: "promises (deliver e w) k \<noteq> None" "pendingPromises (deliver e w) = []"
        "timers (deliver e w) = []" "nextId (deliver e w) = nextId w"
        "page (deliver e w) = page w" "inbox (deliver e w) = drop 1 (inbox w)"
        "\<forall>j. j \<noteq> k \<longrightarrow> promises (deliver e w) j = promises w j"
        using Cons.prems(1) inb match
        by (simp_all add: deliver_def publishEvent_def sole_def settle_def say_def
            clearTimeout_def Let_def)
      from st(1) obtain out where "promises (deliver e w) k = Some out" by blast
      from await_step[OF pn t] await_settled[OF this] Cons.prems(2)
      have "w' = deliver e w" by simp
      then show ?thesis using st unfolding served_def by blast
    next
      case other: False
      note d = sole_deliver_other[OF Cons.prems(1) inb True other]
      have f: "nextId (deliver e w) = nextId w"
        "\<forall>j. j \<noteq> k \<longrightarrow> promises (deliver e w) j = promises w j"
        using Cons.prems(1) inb other
        by (simp_all add: deliver_def publishEvent_def sole_def say_def Let_def)
      have "es = inbox (deliver e w)" using d(3) by simp
      from Cons.hyps(1)[OF this d(2)] Cons.prems(2) d(1)[of env]
      have "served k (deliver e w) w'" by simp
      from served_deliver[OF this inb d(3) f(1) d(5) f(2)] show ?thesis .
    qed
  qed
qed

lemma await_napping:
  assumes "napping k D w"
  shows "\<exists>w'. await env k w = (Some (Resolved None), w') \<and> served k w w'"
  using assms
proof (induction "inbox w" arbitrary: w)
  case Nil
  let ?t = "\<lparr>tid = k, kind = SleepDone, promise = k, deadline = D\<rparr>"
  from Nil have t: "tick env w = Some (fire env ?t w)"
    by (auto simp: tick_def napping_def)
  have st: "promises (fire env ?t w) k = Some (Resolved None)" "pendingPromises (fire env ?t w) = []"
    "timers (fire env ?t w) = []" "nextId (fire env ?t w) = nextId w"
    "page (fire env ?t w) = page w" "inbox (fire env ?t w) = drop 0 (inbox w)"
    "\<forall>j. j \<noteq> k \<longrightarrow> promises (fire env ?t w) j = promises w j"
    using Nil.prems by (simp_all add: fire_def napping_def settle_def Let_def)
  from Nil.prems have pn: "promises w k = None" by (simp add: napping_def)
  from await_step[OF pn t] await_settled[OF st(1)]
  have "await env k w = (Some (Resolved None), fire env ?t w)" by simp
  then show ?case using st unfolding served_def by blast
next
  case (Cons e es)
  let ?t = "\<lparr>tid = k, kind = SleepDone, promise = k, deadline = D\<rparr>"
  from Cons.hyps(2) have inb: "inbox w = e # es" by simp
  from Cons.prems have pn: "promises w k = None" by (simp add: napping_def)
  show ?case
  proof (cases "D \<le> fst e")
    case True
    then have t: "tick env w = Some (fire env ?t w)"
      using Cons.prems inb by (auto simp: tick_def napping_def)
    have st: "promises (fire env ?t w) k = Some (Resolved None)" "pendingPromises (fire env ?t w) = []"
      "timers (fire env ?t w) = []" "nextId (fire env ?t w) = nextId w"
      "page (fire env ?t w) = page w" "inbox (fire env ?t w) = drop 0 (inbox w)"
      "\<forall>j. j \<noteq> k \<longrightarrow> promises (fire env ?t w) j = promises w j"
      using Cons.prems by (simp_all add: fire_def napping_def settle_def Let_def)
    from await_step[OF pn t] await_settled[OF st(1)]
    have "await env k w = (Some (Resolved None), fire env ?t w)" by simp
    then show ?thesis using st unfolding served_def by blast
  next
    case False
    then have t: "tick env w = Some (deliver e w)"
      using Cons.prems inb by (auto simp: tick_def napping_def)
    have f: "napping k D (deliver e w)" "inbox (deliver e w) = es"
      "nextId (deliver e w) = nextId w" "page (deliver e w) = page w"
      "\<forall>j. j \<noteq> k \<longrightarrow> promises (deliver e w) j = promises w j"
      using Cons.prems inb
      by (simp_all add: deliver_def publishEvent_def napping_def say_def Let_def)
    have "es = inbox (deliver e w)" using f(2) by simp
    from Cons.hyps(1)[OF this f(1)] obtain w' where
      w': "await env k (deliver e w) = (Some (Resolved None), w')" "served k (deliver e w) w'"
      by blast
    from served_deliver[OF w'(2) inb f(2) f(3) f(4) f(5)] await_step[OF pn t] w'(1)
    show ?thesis by auto
  qed
qed

lemma keepsI: "(\<And>w r w'. P w \<Longrightarrow> m w = (Ok r, w') \<Longrightarrow> P w') \<Longrightarrow> keeps P m"
  by (auto simp: keeps_def)

lemma keepsD: "keeps P m \<Longrightarrow> P w \<Longrightarrow> m w = (Ok r, w') \<Longrightarrow> P w'"
  by (auto simp: keeps_def)

lemma keeps_ret: "keeps P (ret x)"
  by (simp add: keeps_def ret_def)

lemma keeps_throw: "keeps P (throw e)"
  by (simp add: keeps_def throw_def)

lemma keeps_bnd:
  assumes "keeps P m" and "\<And>x. keeps P (f x)"
  shows "keeps P (bnd m f)"
proof (rule keepsI)
  fix w r w'
  assume p: "P w" and b: "bnd m f w = (Ok r, w')"
  from b obtain x w1 where 1: "m w = (Ok x, w1)" and 2: "f x w1 = (Ok r, w')"
    by (rule bnd_Ok)
  from keepsD[OF assms(1) p 1] have "P w1" .
  from keepsD[OF assms(2) this 2] show "P w'" .
qed

lemma keeps_if: "keeps P m \<Longrightarrow> keeps P m' \<Longrightarrow> keeps P (if b then m else m')"
  by simp

lemma keeps_try_rethrow:
  assumes "keeps P m"
  shows "keeps P (try_catch m (\<lambda>e. bnd (effect_only (g e)) (\<lambda>u. throw e)))"
proof (rule keepsI)
  fix w r w'
  assume p: "P w"
    and t: "try_catch m (\<lambda>e. bnd (effect_only (g e)) (\<lambda>u. throw e)) w = (Ok r, w')"
  from t have "m w = (Ok r, w')" by (rule try_rethrow_Ok)
  from keepsD[OF assms p this] show "P w'" .
qed

lemma ready_trace [simp]: "ready (w\<lparr>trace := t\<rparr>) = ready w"
  by (simp add: ready_def idle_def)

lemma ready_say [simp]: "ready (say c w) = ready w" "ready (emit e w) = ready w"
  by (simp_all add: say_def emit_def)

lemma keeps_say: "keeps ready (effect_only (say c))"
  by (rule keepsI) (auto simp: effect_only_def)

lemma keeps_debug_line: "keeps ready (debug_line s)"
  by (rule keepsI) (auto simp: debug_line_def split: if_splits)

lemma keeps_auto_call: "keeps ready (auto_call env c)"
  by (rule keepsI) (auto simp: auto_call_def split: option.splits)

lemma register_sole:
  assumes "idle w"
  shows "\<exists>w1 n. waitForAudioEvent T tm w = (nextId w, w1) \<and>
           sole (nextId w) T n (clock w + n) w1 \<and> inbox w1 = inbox w \<and> page w1 = page w \<and>
           nextId w1 = Suc (nextId w) \<and> promises w1 = promises w"
  using assms
  by (simp add: waitForAudioEvent_def sole_def idle_def Let_def)

lemma served_ready:
  assumes "ready w0" and "inbox w = inbox w0" and "page w = page w0"
    and "nextId w = Suc (nextId w0)" and "\<forall>j. j \<noteq> nextId w0 \<longrightarrow> promises w j = promises w0 j"
    and "served (nextId w0) w w'"
  shows "ready w'"
proof -
  from assms(6) obtain m where m: "inbox w' = drop m (inbox w)" by (auto simp: served_def)
  have "sorted (drop m (map fst (inbox w0)))"
    using assms(1) unfolding ready_def by (intro sorted_wrt_drop) simp
  then have "sorted (map fst (inbox w'))"
    using assms(2) m by (simp add: drop_map)
  moreover have "\<forall>j. nextId w' \<le> j \<longrightarrow> promises w' j = None"
  proof (intro allI impI)
    fix j assume "nextId w' \<le> j"
    with assms(4,6) have j: "Suc (nextId w0) \<le> j" by (simp add: served_def)
    then have "j \<noteq> nextId w0" by simp
    with assms(5,6) have "promises w' j = promises w0 j" by (simp add: served_def)
    moreover from j assms(1) have "promises w0 j = None" by (simp add: ready_def idle_def)
    ultimately show "promises w' j = None" by simp
  qed
  ultimately show ?thesis
    using assms unfolding served_def ready_def idle_def by simp
qed

lemma keeps_wait_event: "keeps ready (wait_event env T tm)"
proof (rule keepsI)
  fix w r w'
  assume r: "ready w" and ok: "wait_event env T tm w = (Ok r, w')"
  then have "idle w" by (simp add: ready_def)
  from register_sole[OF this, of T tm] obtain w1 n where reg:
    "waitForAudioEvent T tm w = (nextId w, w1)" "sole (nextId w) T n (clock w + n) w1"
    "inbox w1 = inbox w" "page w1 = page w" "nextId w1 = Suc (nextId w)" "promises w1 = promises w"
    by blast
  from ok reg(1) have "await env (nextId w) w1 = (Some (Resolved r), w')"
    by (auto simp: wait_event_def awaiting_def split: prod.splits option.splits outcome.splits)
  from await_sole_served[OF reg(2) this] have "served (nextId w) w1 w'" .
  from served_ready[OF r reg(3) reg(4) reg(5) _ this] reg(6) show "ready w'" by simp
qed

lemma sleep_ready:
  assumes "ready w"
  shows "\<exists>w'. sleep env ms w = (Ok (), w') \<and> ready w'"
proof -
  let ?w1 = "w\<lparr>nextId := Suc (nextId w),
                 timers := timers w @
                   [\<lparr>tid = nextId w, kind = SleepDone, promise = nextId w,
                     deadline = clock w + ms\<rparr>]\<rparr>"
  have n: "napping (nextId w) (clock w + ms) ?w1"
    using assms by (simp add: napping_def ready_def idle_def)
  from await_napping[OF n, of env] obtain w' where
    w': "await env (nextId w) ?w1 = (Some (Resolved None), w')" "served (nextId w) ?w1 w'"
    by blast
  have "sleep env ms w = (Ok (), w')"
    using w'(1) by (simp add: sleep_def Let_def bnd_def awaiting_def ret_def)
  moreover have "ready w'"
    by (rule served_ready[OF assms _ _ _ _ w'(2)]) simp_all
  ultimately show ?thesis by blast
qed

lemma keeps_sleep: "keeps ready (sleep env ms)"
proof (rule keepsI)
  fix w r w'
  assume "ready w" and s: "sleep env ms w = (Ok r, w')"
  from sleep_ready[OF this(1), of env ms] obtain w2 where
    "sleep env ms w = (Ok (), w2)" "ready w2" by blast
  with s show "ready w'" by simp
qed

lemma keeps_case_option:
  "keeps P a \<Longrightarrow> (\<And>x. keeps P (f x)) \<Longrightarrow> keeps P (case v of None \<Rightarrow> a | Some x \<Rightarrow> f x)"
  by (cases v) simp_all

lemma keeps_case_prod3:
  "(\<And>a b c. keeps P (f a b c)) \<Longrightarrow> keeps P (case p of (a, b, c) \<Rightarrow> f a b c)"
  by (cases p) simp

lemma keeps_effect_only: "(\<And>w. ready (f w) = ready w) \<Longrightarrow> keeps ready (effect_only f)"
  by (rule keepsI) (auto simp: effect_only_def)

lemmas keeps_intros = keeps_if keeps_bnd keeps_ret keeps_throw keeps_auto_call keeps_wait_event
  keeps_sleep keeps_say keeps_debug_line keeps_try_rethrow keeps_case_option keeps_case_prod3

lemma keeps_handleClick: "keeps ready (handleClick env st)"
  unfolding handleClick_def by (intro keeps_intros)

lemma keeps_handleWaitForVoice: "keeps ready (handleWaitForVoice env)"
  unfolding handleWaitForVoice_def by (intro keeps_intros)

lemma keeps_handleWaitForSilence: "keeps ready (handleWaitForSilence env)"
  unfolding handleWaitForSilence_def by (intro keeps_intros)

lemma keeps_handleWait: "keeps ready (handleWait env st)"
  unfolding handleWait_def by (intro keeps_intros)

lemma keeps_handleSpeak: "keeps ready (handleSpeak env st)"
  unfolding handleSpeak_def by (intro keeps_intros)

lemma keeps_saveAudioAsWAV: "keeps ready (saveAudioAsWAV env a)"
  by (rule keepsI) (auto simp: saveAudioAsWAV_def split: sum.splits)

lemma keeps_transcribe: "keeps ready (transcribe env p)"
  by (rule keepsI) (auto simp: transcribe_def split: sum.splits)

lemma keeps_evaluate: "keeps ready (evaluate env t q)"
  by (rule keepsI) (auto simp: evaluate_def split: sum.splits)

lemma keeps_handleListen: "keeps ready (handleListen env st)"
  unfolding handleListen_def
  by (intro keeps_intros keeps_saveAudioAsWAV keeps_transcribe keeps_evaluate)

lemma keeps_handleSleep: "keeps ready (handleSleep env st)"
  unfolding handleSleep_def by (intro keeps_intros)

lemma keeps_handleWaitForElement: "keeps ready (handleWaitForElement env st)"
  unfolding handleWaitForElement_def by (intro keeps_intros)

lemma keeps_handleType: "keeps ready (handleType env st)"
  unfolding handleType_def by (intro keeps_intros)

lemma keeps_handleFill: "keeps ready (handleFill env st)"
  unfolding handleFill_def by (intro keeps_intros)

lemma keeps_handleSelectDropdown: "keeps ready (handleSelectDropdown env sel v vs txt isMultiple)"
  unfolding handleSelectDropdown_def by (intro keeps_intros)

lemma keeps_handleSelectCheckbox: "keeps ready (handleSelectCheckbox env sel chk)"
  unfolding handleSelectCheckbox_def Let_def by (intro keeps_intros)

lemma keeps_handleSelectRadio: "keeps ready (handleSelectRadio env sel)"
  unfolding handleSelectRadio_def by (intro keeps_intros)

lemma keeps_handleSelectCustom: "keeps ready (handleSelectCustom env sel txt)"
  unfolding handleSelectCustom_def by (intro keeps_intros)

lemma keeps_handleSelect: "keeps ready (handleSelect env st)"
  unfolding handleSelect_def Let_def
  by (intro keeps_intros keeps_handleSelectDropdown keeps_handleSelectCheckbox
      keeps_handleSelectRadio keeps_handleSelectCustom)

lemma keeps_handleScreenshot: "keeps ready (handleScreenshot env st)"
proof (rule keepsI)
  fix w r w'
  assume r: "ready w" and h: "handleScreenshot env st w = (Ok r, w')"
  then have "page w" by (simp add: ready_def)
  with h obtain p where "bnd (auto_call env (Screenshot p)) (\<lambda>u. ret (PathString p)) w = (Ok r, w')"
    by (simp add: handleScreenshot_def Let_def)
  moreover have "keeps ready (bnd (auto_call env (Screenshot p)) (\<lambda>u. ret (PathString p)))"
    by (intro keeps_intros)
  ultimately show "ready w'" using r by (blast dest: keepsD)
qed

lemma keeps_dispatch: "keeps ready (dispatch env st)"
  unfolding dispatch_def Let_def
  by (intro keeps_intros keeps_handleClick keeps_handleWaitForVoice keeps_handleWaitForSilence
      keeps_handleWait keeps_handleSpeak keeps_handleListen keeps_handleSleep
      keeps_handleWaitForElement keeps_handleType keeps_handleFill keeps_handleSelect
      keeps_handleScreenshot)

lemma ready_record_metrics [simp]: "ready (record_metrics st i n r w) = ready w"
  by (simp add: record_metrics_def Let_def split: option.splits hresult.splits)

lemma keeps_executeStep: "keeps ready (executeStep env st i)"
proof (rule keepsI)
  fix w r w'
  assume r: "ready w" and x: "executeStep env st i w = (Ok r, w')"
  then have p: "page w" by (simp add: ready_def)
  let ?m = "bnd (dispatch env st) (\<lambda>handlerResult.
            bnd (effect_only (\<lambda>w'. say (ElapsedTime (clock w' - clock w)) w')) (\<lambda>u.
            effect_only (\<lambda>w'. record_metrics st i (clock w' - clock w) handlerResult w')))"
  from x p have "try_catch ?m
           (\<lambda>e. bnd (effect_only (say (ErrorExecutingStep (i + 1) (s_action st)
                                         (shortMessage e))))
                  (\<lambda>u. throw e)) w = (Ok r, w')"
    by (simp add: executeStep_def Let_def)
  then have "?m w = (Ok r, w')" by (rule try_rethrow_Ok)
  moreover have "keeps ready ?m"
    by (intro keeps_bnd keeps_dispatch keeps_effect_only) simp_all
  ultimately show "ready w'" using r by (blast dest: keepsD)
qed

lemma keeps_run_steps: "keeps ready (run_steps env i steps)"
proof (induction steps arbitrary: i)
  case Nil
  show ?case by (rule keepsI) simp
next
  case (Cons st steps)
  show ?case
  proof (rule keepsI)
    fix w r w'
    assume r: "ready w" and x: "run_steps env i (st # steps) w = (Ok r, w')"
    from x obtain u w1 where 1: "executeStep env st i (say (ExecutingStep (i + 1)) w) = (Ok u, w1)"
      and 2: "run_steps env (Suc i) steps w1 = (Ok r, w')"
      by (auto split: prod.splits result.splits)
    from r have "ready (say (ExecutingStep (i + 1)) w)" by simp
    from keepsD[OF keeps_executeStep this 1] have "ready w1" .
    from keepsD[OF Cons.IH this 2] show "ready w'" .
  qed
qed

lemma idle_simps [simp]:
  "idle (emit e w) = idle w" "idle (say c w) = idle w"
  "idle (w\<lparr>browser := b, page := p\<rparr>) = idle w" "idle (w\<lparr>recordingStream := b\<rparr>) = idle w"
  by (simp_all add: idle_def)

lemma keeps_startRecording: "keeps ready (startRecording env)"
proof (rule keepsI)
  fix w r w'
  assume r: "ready w" and x: "startRecording env w = (Ok r, w')"
  show "ready w'"
  proof (cases "\<not> recording w \<or> \<not> page w")
    case True
    with x r show ?thesis by (simp add: startRecording_def)
  next
    case False
    with x have "answer env GetStream = None"
      and "w' = say (RecordingLine ''started'') ((emit (Auto GetStream) w)\<lparr>recordingStream := True\<rparr>)"
      by (auto simp: startRecording_def bnd_def auto_call_def effect_only_def split: option.splits)
    with r show ?thesis by (simp add: ready_def)
  qed
qed

lemma keeps_startAudioFromUrl: "keeps ready (startAudioFromUrl env url)"
proof (rule keepsI)
  fix w r w'
  assume r: "ready w" and x: "startAudioFromUrl env url w = (Ok r, w')"
  from x have "\<exists>es. w' = w\<lparr>trace := trace w @ es\<rparr>"
    by (auto simp: startAudioFromUrl_def bnd_def try_catch_def auto_call_def effect_only_def
        say_def emit_def split: option.splits)
  with r show "ready w'" by auto
qed

text \<open>
  When the part of \<^verbatim>\<open>runScenario\<close> before the steps succeeds on a tester with nothing
  pending, the first step begins in a ready state.
\<close>

lemma prologue_ready:
  assumes "idle w0" and "sorted (map fst (inbox w0))" and "prologue env url w0 = (Ok (), wp)"
  shows "ready wp"
proof -
  let ?rest = "bnd (auto_call env (Goto url)) (\<lambda>u.
     bnd (auto_call env WaitForNetworkIdle) (\<lambda>u.
     bnd (sleep env 500) (\<lambda>u.
     bnd (startRecording env) (\<lambda>u.
     (\<lambda>w. if falsy (audioUrl w) then (Ok (), w)
          else startAudioFromUrl env (str (audioUrl w)) w)))))"
  from assms(3) obtain u1 w1 where
    1: "effect_only (\<lambda>w. if reportGenerator w then emit BeginRun w else w) w0 = (Ok u1, w1)"
    and b1: "bnd (launch env url) (\<lambda>u. bnd (injectJavaScriptFiles env) (\<lambda>u. ?rest)) w1 = (Ok (), wp)"
    unfolding prologue_def by (rule bnd_Ok)
  from b1 obtain u2 w2 where 2: "launch env url w1 = (Ok u2, w2)"
    and b2: "bnd (injectJavaScriptFiles env) (\<lambda>u. ?rest) w2 = (Ok (), wp)"
    by (rule bnd_Ok)
  from b2 obtain u3 w3 where 3: "injectJavaScriptFiles env w2 = (Ok u3, w3)"
    and b3: "?rest w3 = (Ok (), wp)"
    by (rule bnd_Ok)
  have c1: "idle w1 \<and> sorted (map fst (inbox w1))"
    using 1 assms(1,2) by (cases "reportGenerator w0") (auto simp: effect_only_def)
  have c2: "idle w2 \<and> sorted (map fst (inbox w2))"
  proof (cases "browser w1")
    case True
    with 2 c1 show ?thesis by (simp add: launch_def)
  next
    case False
    with 2 have "w2 = (emit (Auto (Launch url)) w1)\<lparr>browser := True, page := True\<rparr>"
      by (auto simp: launch_def bnd_def auto_call_def effect_only_def split: option.splits)
    with c1 show ?thesis by simp
  qed
  have r3: "ready w3"
  proof -
    from 3 have "page w2" and "w3 = emit (Auto InjectScripts) w2"
      by (auto simp: injectJavaScriptFiles_def auto_call_def split: if_splits option.splits)
    with c2 show ?thesis by (simp add: ready_def)
  qed
  have k: "keeps ready (\<lambda>w. if falsy (audioUrl w) then (Ok (), w)
          else startAudioFromUrl env (str (audioUrl w)) w)"
  proof (rule keepsI)
    fix w r w'
    assume r: "ready w"
      and x: "(if falsy (audioUrl w) then (Ok (), w)
               else startAudioFromUrl env (str (audioUrl w)) w) = (Ok r, w')"
    show "ready w'"
    proof (cases "falsy (audioUrl w)")
      case True
      with x r show ?thesis by simp
    next
      case False
      with x have "startAudioFromUrl env (str (audioUrl w)) w = (Ok r, w')" by simp
      from keepsD[OF keeps_startAudioFromUrl r this] show ?thesis .
    qed
  qed
  have "keeps ready ?rest"
    by (intro keeps_bnd keeps_auto_call keeps_sleep keeps_startRecording k)
  from keepsD[OF this r3 b3] show ?thesis .
qed

lemma new_tester_idle: "idle (new_tester dbg report rec aurl events)"
  by (simp add: idle_def new_tester_def)

text \<open>
  In a run on a freshly built tester whose events are listed in order of arrival, every
  step begins in a ready state: the page is there and no wait or sleep is in progress.
\<close>

lemma every_step_begins_ready:
  assumes "sorted (map fst events)"
    and "prologue env url (new_tester dbg report rec aurl events) = (Ok (), wp)"
    and "run_steps env 0 pre wp = (Ok (), wk)"
  shows "ready (say (ExecutingStep (length pre + 1)) wk)"
proof -
  have "sorted (map fst (inbox (new_tester dbg report rec aurl events)))"
    using assms(1) by (simp add: new_tester_def)
  from prologue_ready[OF new_tester_idle this assms(2)] have "ready wp" .
  from keepsD[OF keeps_run_steps this assms(3)] show ?thesis by simp
qed

section \<open>Properties of the event broker, the step executor and the run controller\<close>

text \<open>
  Claim C1 on the code. A wait for \<^verbatim>\<open>audiostart\<close> with a timeout of 10 ms times out
  and, as the theorem for C2 below shows, leaves its entry in the pending list. A second
  wait for \<^verbatim>\<open>audiostart\<close> is then registered behind that entry; it is the only
  outstanding waiter. Publishing \<^verbatim>\<open>audiostart\<close> now takes the stale first entry off
  the list and calls its \<^verbatim>\<open>resolve\<close>, which has no effect on a promise already
  rejected: no promise is settled by the event and the outstanding waiter stays
  unresolved. With the page reporting \<^verbatim>\<open>audiostart\<close> at 5000 ms, the second wait ends
  in a timeout after 30000 ms instead of being resolved.
\<close>

theorem publish_after_timeout_reaches_no_waiter:
  "inbox short_wait_done = [(5000, ''audiostart'', None)] \<and>
   outstanding second_waiter = [1] \<and>
   promises (publishEvent ''audiostart'' None second_waiter) = promises second_waiter \<and>
   promises (publishEvent ''audiostart'' None second_waiter) 1 = None \<and>
   fst (wait_event good_page ''audiostart'' None short_wait_done) =
     Err (Timeout ''audiostart'' 30000 NoDetail)"
  by (simp add: second_waiter_def short_wait_done_eval outstanding_def promise_of_def
      broker_defs run_defs await.simps launched_def new_tester_def good_page_def Let_def)

text \<open>
  Claim C2 on the code. A wait for \<^verbatim>\<open>audiostart\<close> with a timeout of 10 ms, during
  which the page reports nothing, fails with the timeout error at 10 ms. The entry of
  the waiter is still in the pending list of \<^verbatim>\<open>audiostart\<close> afterwards: the timeout
  callback looks for an entry whose \<^verbatim>\<open>resolve\<close> field is the \<^verbatim>\<open>resolve\<close> of the
  promise, but the field holds \<^verbatim>\<open>wrappedResolve\<close>, so nothing is found and nothing
  is removed (lemma \<open>onTimeout_keeps_queue\<close> states this for every list built by
  \<^verbatim>\<open>waitForAudioEvent\<close>).
\<close>

theorem timed_out_waiter_stays_queued:
  "fst (wait_event good_page ''audiostart'' (Some 10) (launched False [(5000, ''audiostart'', None)])) =
     Err (Timeout ''audiostart'' 10 NoDetail) \<and>
   clock short_wait_done = 10 \<and>
   promises short_wait_done 0 = Some (Rejected (Timeout ''audiostart'' 10 NoDetail)) \<and>
   pendingPromises short_wait_done =
     [(''audiostart'', [\<lparr>resolve = WrappedResolve 0, reject = Reject 0, timeoutId = 0\<rparr>])]"
  by (simp add: short_wait_done_def broker_defs run_defs await.simps launched_def new_tester_def
      good_page_def Let_def)

text \<open>
  Claim C3. \<^verbatim>\<open>clearAudioEventQueue\<close> empties every pending list and rejects every
  waiter that is still outstanding, whatever their number and event types, with an
  ``Event queue cleared'' error. Doing it twice is the same as doing it once, and an
  event published afterwards settles no promise. \<^verbatim>\<open>close\<close> on a tester with a
  browser does the same with a ``Browser closed'' error, whether or not closing the
  browser itself succeeds, and a second \<^verbatim>\<open>close\<close> changes neither the promises nor
  the (empty) pending map.
\<close>

theorem teardown_cancels_all:
  "pendingPromises (clearAudioEventQueue w) = [] \<and>
   (\<forall>k \<in> set (outstanding w).
      \<exists>T. promises (clearAudioEventQueue w) k = Some (Rejected (QueueCleared T))) \<and>
   clearAudioEventQueue (clearAudioEventQueue w) = clearAudioEventQueue w \<and>
   promises (publishEvent T d (clearAudioEventQueue w)) = promises (clearAudioEventQueue w) \<and>
   pendingPromises (publishEvent T d (clearAudioEventQueue w)) = [] \<and>
   (browser w \<longrightarrow>
      pendingPromises (snd (close env w)) = [] \<and>
      (\<forall>k \<in> set (outstanding w).
         \<exists>T. promises (snd (close env w)) k = Some (Rejected (BrowserClosed T))) \<and>
      promises (snd (close env (snd (close env w)))) = promises (snd (close env w)) \<and>
      pendingPromises (snd (close env (snd (close env w)))) = [] \<and>
      promises (publishEvent T d (snd (close env w))) = promises (snd (close env w)) \<and>
      pendingPromises (publishEvent T d (snd (close env w))) = [])"
proof (intro conjI impI ballI)
  show "pendingPromises (clearAudioEventQueue w) = []"
    by (simp add: clearAudioEventQueue_def)
  show "clearAudioEventQueue (clearAudioEventQueue w) = clearAudioEventQueue w"
    by (simp add: clearAudioEventQueue_def reject_all_idem)
  show "promises (publishEvent T d (clearAudioEventQueue w)) = promises (clearAudioEventQueue w)"
    by (simp add: clearAudioEventQueue_def publish_idle)
  show "pendingPromises (publishEvent T d (clearAudioEventQueue w)) = []"
    by (simp add: clearAudioEventQueue_def publish_idle)
next
  fix k assume "k \<in> set (outstanding w)"
  from reject_all_outstanding[OF this, of QueueCleared]
  show "\<exists>T. promises (clearAudioEventQueue w) k = Some (Rejected (QueueCleared T))"
    by (auto simp: clearAudioEventQueue_def)
next
  assume b: "browser w"
  from close_state[OF b, of env] have c:
    "promises (snd (close env w)) = promises (reject_all BrowserClosed (stopRecording w))"
    "pendingPromises (snd (close env w)) = []" by auto
  show "pendingPromises (snd (close env w)) = []" by (rule c(2))
  show "promises (publishEvent T d (snd (close env w))) = promises (snd (close env w))"
    by (simp add: publish_idle c(2))
  show "pendingPromises (publishEvent T d (snd (close env w))) = []"
    by (simp add: publish_idle c(2))
  have again: "promises (snd (close env w')) = promises w' \<and> pendingPromises (snd (close env w')) = []"
    if "pendingPromises w' = []" for w'
    using that
    by (auto simp: close_def bnd_def effect_only_def auto_call_def reject_all_idle
        split: option.splits)
  from again[OF c(2)]
  show "promises (snd (close env (snd (close env w)))) = promises (snd (close env w))"
    and "pendingPromises (snd (close env (snd (close env w)))) = []" by simp_all
next
  fix k assume b: "browser w" and k: "k \<in> set (outstanding w)"
  from close_state[OF b, of env] have c:
    "promises (snd (close env w)) = promises (reject_all BrowserClosed (stopRecording w))" by auto
  from k have "k \<in> set (outstanding (stopRecording w))" by simp
  from reject_all_outstanding[OF this, of BrowserClosed]
  show "\<exists>T. promises (snd (close env w)) k = Some (Rejected (BrowserClosed T))"
    by (auto simp: c)
qed

text \<open>
  Three waiters of two event types (promises 0 and 2 for \<^verbatim>\<open>audiostart\<close>, promise 1
  for \<^verbatim>\<open>audiostop\<close>) are all rejected by either teardown.
\<close>

theorem teardown_cancels_all_witness:
  "outstanding three_waiters = [0, 2, 1] \<and> browser three_waiters \<and>
   (\<exists>T. promises (clearAudioEventQueue three_waiters) 0 = Some (Rejected (QueueCleared T))) \<and>
   (\<exists>T. promises (clearAudioEventQueue three_waiters) 1 = Some (Rejected (QueueCleared T))) \<and>
   (\<exists>T. promises (clearAudioEventQueue three_waiters) 2 = Some (Rejected (QueueCleared T))) \<and>
   (\<exists>T. promises (snd (close good_page three_waiters)) 0 = Some (Rejected (BrowserClosed T))) \<and>
   (\<exists>T. promises (snd (close good_page three_waiters)) 1 = Some (Rejected (BrowserClosed T))) \<and>
   (\<exists>T. promises (snd (close good_page three_waiters)) 2 = Some (Rejected (BrowserClosed T))) \<and>
   pendingPromises (clearAudioEventQueue three_waiters) = [] \<and>
   promises (publishEvent ''audiostart'' None (clearAudioEventQueue three_waiters)) =
     promises (clearAudioEventQueue three_waiters)"
proof -
  have o: "outstanding three_waiters = [0, 2, 1]"
    by (simp add: three_waiters_eval outstanding_def promise_of_def launched_def new_tester_def)
  have b: "browser three_waiters"
    by (simp add: three_waiters_eval launched_def)
  from teardown_cancels_all[of three_waiters "''audiostart''" None good_page] o b
  show ?thesis by simp
qed



text \<open>
  Claim C5. On a launched tester, a step whose action is none of the twelve known ones
  makes \<^verbatim>\<open>executeStep\<close> return normally. It writes the ``Unknown action'' line and
  the elapsed time, reports the elapsed time when the step asks for that metric and a
  report generator is present, and changes nothing else: no automation call, no waiter,
  no timer. The loop of \<^verbatim>\<open>runScenario\<close> goes on with the next step. (In a run the
  tester is launched at every step, see \<open>every_step_begins_ready\<close>.)
\<close>

theorem unknown_action_is_skipped:
  assumes "page w" and "s_action st \<notin> set known_actions"
  shows "executeStep env st i w =
           (Ok (), w\<lparr>trace := trace w @
              [Console (UnknownAction (s_action st)), Console (ElapsedTime 0)] @
              (if reportGenerator w \<and>
                  (case s_metrics st of None \<Rightarrow> False | Some ms \<Rightarrow> ''elapsed_time'' \<in> set ms)
               then [RecordStepMetric i (s_action st) ''elapsed_time'' 0] else [])\<rparr>) \<and>
         run_steps env i (st # rest) w =
           run_steps env (Suc i) rest (snd (executeStep env st i (say (ExecutingStep (i + 1)) w)))"
proof
  show "executeStep env st i w =
           (Ok (), w\<lparr>trace := trace w @
              [Console (UnknownAction (s_action st)), Console (ElapsedTime 0)] @
              (if reportGenerator w \<and>
                  (case s_metrics st of None \<Rightarrow> False | Some ms \<Rightarrow> ''elapsed_time'' \<in> set ms)
               then [RecordStepMetric i (s_action st) ''elapsed_time'' 0] else [])\<rparr>)"
    using executeStep_Ok[OF assms(1) dispatch_unknown[OF assms(2)], where i = i and env = env]
    by (simp add: record_metrics_Undefined say_def emit_def)
  have "page (say (ExecutingStep (i + 1)) w)" using assms(1) by simp
  from executeStep_Ok[OF this dispatch_unknown[OF assms(2)], where i = i and env = env]
  show "run_steps env i (st # rest) w =
           run_steps env (Suc i) rest (snd (executeStep env st i (say (ExecutingStep (i + 1)) w)))"
    by simp
qed

text \<open>A step with the action \<^verbatim>\<open>hover\<close> that asks for the elapsed time.\<close>

theorem unknown_action_is_skipped_witness:
  "executeStep good_page hover_step 0 (launched False []) =
     (Ok (), (launched False [])\<lparr>trace :=
        [Console (UnknownAction ''hover''), Console (ElapsedTime 0),
         RecordStepMetric 0 ''hover'' ''elapsed_time'' 0]\<rparr>)"
proof -
  have p: "page (launched False [])" by (simp add: launched_def)
  have a: "s_action hover_step \<notin> set known_actions"
    by (simp add: hover_step_def no_step_def known_actions_def)
  from unknown_action_is_skipped[OF p a, of good_page 0 "[]"] show ?thesis
    by (simp add: hover_step_def no_step_def launched_def new_tester_def)
qed





end
